theory Spec2Isabelle
  imports Complex_Main "HOL-Library.Word" "HOL-Library.Log_Nat"
begin

section \<open>SourceBufferManager: the buffered-range queries\<close>

text \<open>
  A JavaScript number is an IEEE 754 double: a finite one is kept by its value, a
  rational number; the others are the two infinities and NaN. The sign of zero is not
  kept, since no comparison tells \<open>-0\<close> from \<open>+0\<close>. \<open>roundDouble\<close> rounds an exact
  result to the nearest double, ties to the even significand: 53 significant bits, the
  exponent of the last place not below \<open>-1074\<close>, and infinity from \<open>2 ^ 1024\<close> on.
  \<open>floorlog2 x\<close> is the exponent \<open>e\<close> with \<open>2 ^ e \<le> x < 2 ^ (e + 1)\<close>.
\<close>

datatype jsnumber = Finite rat | PlusInfinity | MinusInfinity | NotANumber

definition floorlog2 :: "rat \<Rightarrow> int" where
  "floorlog2 x =
     (let (a, b) = quotient_of x; d = bitlen a - bitlen b
      in if 2 powi d \<le> x then d else d - 1)"

definition roundHalfEven :: "rat \<Rightarrow> int" where
  "roundHalfEven y =
     (let f = \<lfloor>y\<rfloor>; r = y - of_int f
      in if r < 1 / 2 then f else if 1 / 2 < r then f + 1 else if even f then f else f + 1)"

definition roundDouble :: "rat \<Rightarrow> jsnumber" where
  "roundDouble x =
     (if x = 0 then Finite 0
      else let q = max (floorlog2 \<bar>x\<bar> - 52) (- 1074);
               m = roundHalfEven (x / 2 powi q);
               v = of_int m * 2 powi q
           in if 2 ^ 1024 \<le> \<bar>v\<bar> then (if 0 < x then PlusInfinity else MinusInfinity)
              else Finite v)"

text \<open>
  Negation, addition, subtraction and the comparisons \<open>\<le>\<close> and \<open><\<close> of doubles: every
  comparison with NaN is false.
\<close>

fun js_neg :: "jsnumber \<Rightarrow> jsnumber" where
  "js_neg (Finite a) = Finite (- a)"
| "js_neg PlusInfinity = MinusInfinity"
| "js_neg MinusInfinity = PlusInfinity"
| "js_neg NotANumber = NotANumber"

fun js_add :: "jsnumber \<Rightarrow> jsnumber \<Rightarrow> jsnumber" where
  "js_add (Finite a) (Finite b) = roundDouble (a + b)"
| "js_add NotANumber y = NotANumber"
| "js_add x NotANumber = NotANumber"
| "js_add PlusInfinity MinusInfinity = NotANumber"
| "js_add MinusInfinity PlusInfinity = NotANumber"
| "js_add PlusInfinity y = PlusInfinity"
| "js_add x PlusInfinity = PlusInfinity"
| "js_add MinusInfinity y = MinusInfinity"
| "js_add x MinusInfinity = MinusInfinity"

definition js_sub :: "jsnumber \<Rightarrow> jsnumber \<Rightarrow> jsnumber" where
  "js_sub x y = js_add x (js_neg y)"

fun js_less_eq :: "jsnumber \<Rightarrow> jsnumber \<Rightarrow> bool" where
  "js_less_eq (Finite a) (Finite b) = (a \<le> b)"
| "js_less_eq NotANumber y = False"
| "js_less_eq x NotANumber = False"
| "js_less_eq MinusInfinity y = True"
| "js_less_eq x PlusInfinity = True"
| "js_less_eq x y = False"

definition js_less :: "jsnumber \<Rightarrow> jsnumber \<Rightarrow> bool" where
  "js_less x y = (js_less_eq x y \<and> \<not> js_less_eq y x)"

text \<open>A rational number is the value of a double when rounding leaves it as it is.\<close>

definition isDouble :: "rat \<Rightarrow> bool" where
  "isDouble x = (roundDouble x = Finite x)"

text \<open>
  The sink's \<open>buffered\<close> attribute (a TimeRanges object) is the list of its
  \<open>(start, end)\<close> pairs, in the order of the index \<open>i\<close>. \<open>FUDGE_FACTOR\<close> is \<open>1 / 60\<close>
  evaluated in doubles.
\<close>

type_synonym timeRanges = "(jsnumber \<times> jsnumber) list"

definition FUDGE_FACTOR :: jsnumber where
  "FUDGE_FACTOR = roundDouble (1 / 60)"

text \<open>The \<open>for\<close> loop of \<open>bufferedAheadOf\<close>: the first range that matches returns.\<close>

fun bufferedAheadOf :: "timeRanges \<Rightarrow> jsnumber \<Rightarrow> jsnumber" where
  "bufferedAheadOf [] timestamp = Finite 0"
| "bufferedAheadOf ((s, e) # b) timestamp =
     (let start = js_sub s FUDGE_FACTOR; end = js_add e FUDGE_FACTOR
      in if js_less_eq start timestamp \<and> js_less_eq timestamp end then js_sub e timestamp
         else bufferedAheadOf b timestamp)"

definition isBuffered :: "timeRanges \<Rightarrow> jsnumber \<Rightarrow> bool" where
  "isBuffered b timestamp = js_less (Finite 0) (bufferedAheadOf b timestamp)"

text \<open>
  A timestamp lies in the range \<open>(s, e)\<close> widened by the tolerance, as the loop tests it.
  \<open>minSubnormal\<close> is the smallest positive double.
\<close>

definition inFudged :: "jsnumber \<times> jsnumber \<Rightarrow> jsnumber \<Rightarrow> bool" where
  "inFudged r t =
     (js_less_eq (js_sub (fst r) FUDGE_FACTOR) t \<and> js_less_eq t (js_add (snd r) FUDGE_FACTOR))"

definition minSubnormal :: rat where
  "minSubnormal = 2 powi (- 1074)"

section \<open>SourceBufferManager: fetch, clear and the task slot\<close>

text \<open>
  A segment reference with the fields the manager reads. The stages of a task are
  closures in the source; here each is a descriptor of what the closure will do when
  the task runs it.
\<close>

record segmentReference =
  ref_id :: int
  ref_url :: string
  startByte :: nat
  endByte :: nat
  startTime :: rat
  endTime :: "rat option"

datatype stage =
    AppendInitStage "8 word list"
  | RequestStage string nat nat nat rat "nat list"
  | ConvertAppendStage segmentReference
  | MarkInsertedStage "int list"
  | ClearStage

datatype sinkCall =
    AppendBuffer "8 word list"
  | Remove
  | SinkAbort

datatype 'a promise =
    Resolved
  | Rejected 'a
  | Pending

datatype failure =
    StreamError string
  | SinkException

text \<open>
  The manager's fields. \<open>sinkCalls\<close> is the log of the calls made on the
  SourceBuffer, most recent last; \<open>sinkThrows\<close> says whether the SourceBuffer's
  next \<open>appendBuffer\<close> or \<open>remove\<close> throws.
\<close>

record 'si sourceBufferManager =
  inserted :: "int \<rightharpoonup> bool"
  task :: "stage list option"
  operationPromise :: bool
  streamInfo :: "'si option"
  buffered :: timeRanges
  readyStateOpen :: bool
  sinkThrows :: bool
  sinkCalls :: "sinkCall list"

definition isInserted :: "'si sourceBufferManager \<Rightarrow> segmentReference \<Rightarrow> bool option" where
  "isInserted m reference = inserted m (ref_id reference)"

definition reset :: "'si sourceBufferManager \<Rightarrow> 'si sourceBufferManager" where
  "reset m = m\<lparr>inserted := Map.empty\<rparr>"

definition append_priv ::
  "'si sourceBufferManager \<Rightarrow> 8 word list \<Rightarrow> 'si sourceBufferManager \<times> failure promise" where
  "append_priv m data =
     (if sinkThrows m then (m, Rejected SinkException)
      else (m\<lparr>sinkCalls := sinkCalls m @ [AppendBuffer data], operationPromise := True\<rparr>,
            Pending))"

definition clear_priv :: "'si sourceBufferManager \<Rightarrow> 'si sourceBufferManager \<times> failure promise" where
  "clear_priv m =
     (if length (buffered m) = 0 then (m, Resolved)
      else if sinkThrows m then (m, Rejected SinkException)
      else (m\<lparr>sinkCalls := sinkCalls m @ [Remove], inserted := Map.empty,
               operationPromise := True\<rparr>, Pending))"

definition abort_priv :: "'si sourceBufferManager \<Rightarrow> 'si sourceBufferManager" where
  "abort_priv m = (if readyStateOpen m then m\<lparr>sinkCalls := sinkCalls m @ [SinkAbort]\<rparr> else m)"

text \<open>The three stages that \<open>appendFetchStages\<close> appends for one group of references.\<close>

definition appendFetchStages :: "segmentReference list \<Rightarrow> nat list \<Rightarrow> stage list" where
  "appendFetchStages references endEarlyOn =
     (let r0 = hd references;
          refDuration = (case endTime r0 of
                           None \<Rightarrow> 1
                         | Some t \<Rightarrow> if t = 0 then 1 else t - startTime r0)
      in [RequestStage (ref_url r0) (startByte r0) (endByte (last references)) 3
            (refDuration * 1000) endEarlyOn,
          ConvertAppendStage r0,
          MarkInsertedStage (map ref_id references)])"

text \<open>
  The stream context that the rewrite stage hands to the fragment controller: the
  closure reads \<open>this.streamInfo\<close> when the stage runs, not when it was appended.
\<close>

definition rewriteStageContext :: "'si sourceBufferManager \<Rightarrow> 'si option" where
  "rewriteStageContext m = streamInfo m"

text \<open>
  \<open>shaka.util.Task\<close> is not part of the sources at hand: what \<open>start\<close> and the
  task's promise do to the manager is the parameter \<open>run\<close> of \<open>startTask\<close>.
  \<open>shaka.asserts.assert\<close> and \<open>shaka.log\<close> only report; the test of \<open>this.task_\<close>
  that follows the assertion decides what \<open>fetch\<close> and \<open>clear\<close> do.
\<close>

definition startTask ::
  "('si sourceBufferManager \<Rightarrow> 'si sourceBufferManager \<times> failure promise) \<Rightarrow>
   'si sourceBufferManager \<Rightarrow> 'si sourceBufferManager \<times> failure promise" where
  "startTask run m = run m"

definition singleLocation :: "segmentReference list \<Rightarrow> bool" where
  "singleLocation references = (\<forall>r \<in> set (tl references). ref_url r = ref_url (hd references))"

definition fetch ::
  "('si sourceBufferManager \<Rightarrow> 'si sourceBufferManager \<times> failure promise) \<Rightarrow>
   'si sourceBufferManager \<Rightarrow> segmentReference list \<Rightarrow> 8 word list option \<Rightarrow> nat list \<Rightarrow>
   'si option \<Rightarrow> 'si sourceBufferManager \<times> failure promise" where
  "fetch run m references initSegment endEarlyOn si =
     (let m1 = m\<lparr>streamInfo := si\<rparr>
      in if task m1 \<noteq> None
         then (m1, Rejected (StreamError ''Cannot fetch: previous operation not complete.''))
         else
           let initStages = (case initSegment of None \<Rightarrow> [] | Some d \<Rightarrow> [AppendInitStage d]);
               fetchStages =
                 (if references = [] then []
                  else if singleLocation references
                  then appendFetchStages references endEarlyOn
                  else concat (map (\<lambda>r. appendFetchStages [r] endEarlyOn) references))
           in startTask run (m1\<lparr>task := Some (initStages @ fetchStages)\<rparr>))"

definition clear ::
  "('si sourceBufferManager \<Rightarrow> 'si sourceBufferManager \<times> failure promise) \<Rightarrow>
   'si sourceBufferManager \<Rightarrow> 'si sourceBufferManager \<times> failure promise" where
  "clear run m =
     (if task m \<noteq> None
      then (m, Rejected (StreamError ''Cannot clear: previous operation not complete.''))
      else startTask run (m\<lparr>task := Some [ClearStage]\<rparr>))"

text \<open>A manager with a task in progress, and a task runner, to evaluate the operations on.\<close>

definition busyManager :: "nat sourceBufferManager" where
  "busyManager =
     \<lparr>inserted = [5 \<mapsto> True], task = Some [ClearStage], operationPromise = True,
      streamInfo = Some 1, buffered = [(Finite 0, Finite 10)], readyStateOpen = True, sinkThrows = False,
      sinkCalls = [Remove]\<rparr>"

definition appendAll :: "nat sourceBufferManager \<Rightarrow> nat sourceBufferManager \<times> failure promise" where
  "appendAll m = append_priv (m\<lparr>inserted := Map.empty\<rparr>) []"

section \<open>The byte-array fragment rewriter\<close>

text \<open>
  A JavaScript array of byte values: an element is a byte, or \<open>None\<close> for
  \<open>undefined\<close> (a hole, or a read beyond the end). A JavaScript number is an exact
  integer, or \<open>None\<close> for \<open>NaN\<close> and \<open>undefined\<close>; every number the rewriter
  computes is an integer far below \<open>2 ^ 53\<close>, where the arithmetic of doubles is
  exact. An index is an integer, since \<open>findBox\<close> returns \<open>-1\<close>.
\<close>

type_synonym jsarray = "8 word option list"

text \<open>Reading a property of \<open>null\<close> throws a TypeError.\<close>

datatype error = TypeError

text \<open>
  \<open>xs[i]\<close> read and \<open>xs[i] = v\<close> written: a write at or beyond the length extends the
  array, leaving holes.
\<close>

definition js_get :: "'a option list \<Rightarrow> int \<Rightarrow> 'a option" where
  "js_get xs i = (if 0 \<le> i \<and> i < int (length xs) then xs ! nat i else None)"

definition js_set :: "'a option list \<Rightarrow> int \<Rightarrow> 'a option \<Rightarrow> 'a option list" where
  "js_set xs i v =
     (if i < 0 then xs
      else if i < int (length xs) then xs[nat i := v]
      else xs @ replicate (nat i - length xs) None @ [v])"

definition appendToArray :: "'a list \<Rightarrow> 'a list \<Rightarrow> 'a list" where
  "appendToArray buffer data = buffer @ data"

fun updateInArray :: "'a option list \<Rightarrow> 'a option list \<Rightarrow> int \<Rightarrow> 'a option list" where
  "updateInArray buffer [] position = buffer"
| "updateInArray buffer (d # data) position =
     updateInArray (js_set buffer position d) data (position + 1)"

definition getArraySegment :: "'a option list \<Rightarrow> int \<Rightarrow> int option \<Rightarrow> 'a option list" where
  "getArraySegment buffer start end =
     (case end of
        None \<Rightarrow> []
      | Some e \<Rightarrow> map (\<lambda>i. js_get buffer (start + int i)) [0..<nat (e - start)])"

text \<open>
  The loop of \<open>numberToByteArray\<close> fills the buffer from the low byte up, and the result is
  reversed; \<open>n\<close> is the length of the zero-filled buffer passed in. \<open>NaN & 0xff\<close> is \<open>0\<close>.
\<close>

fun numberToBytes :: "int option \<Rightarrow> nat \<Rightarrow> 8 word list" where
  "numberToBytes numberValue 0 = []"
| "numberToBytes None (Suc n) = 0 # numberToBytes None n"
| "numberToBytes (Some v) (Suc n) =
     (let byte = v mod 256 in word_of_int byte # numberToBytes (Some ((v - byte) div 256)) n)"

definition numberToByteArray :: "int option \<Rightarrow> nat \<Rightarrow> jsarray" where
  "numberToByteArray numberValue n = map Some (rev (numberToBytes numberValue n))"

definition intToByteArray :: "int option \<Rightarrow> jsarray" where
  "intToByteArray intValue = numberToByteArray intValue 4"

definition longToByteArray :: "int option \<Rightarrow> jsarray" where
  "longToByteArray longValue = numberToByteArray longValue 8"

definition stringToByteArray :: "string \<Rightarrow> jsarray" where
  "stringToByteArray stringValue = map (\<lambda>c. Some (of_nat (of_char c))) stringValue"

definition byteArrayToInt :: "jsarray \<Rightarrow> int \<Rightarrow> int option" where
  "byteArrayToInt buffer position =
     foldl (\<lambda>v i. case (v, js_get buffer (position + i)) of
                     (Some x, Some b) \<Rightarrow> Some (x * 256 + uint b)
                   | _ \<Rightarrow> None)
       (Some 0) [0, 1, 2, 3]"

text \<open>
  The test of the loop of \<open>findBox\<close> at index \<open>i\<close>; the loop runs over
  \<open>i < buffer.length - 8\<close> and returns the first match.
\<close>

definition tagAt :: "jsarray \<Rightarrow> jsarray \<Rightarrow> nat \<Rightarrow> bool" where
  "tagAt buffer boxTypeData i =
     (js_get buffer (int i + 4) = js_get boxTypeData 0 \<and>
      js_get buffer (int i + 5) = js_get boxTypeData 1 \<and>
      js_get buffer (int i + 6) = js_get boxTypeData 2 \<and>
      js_get buffer (int i + 7) = js_get boxTypeData 3)"

definition findBox :: "jsarray \<Rightarrow> string \<Rightarrow> int" where
  "findBox buffer boxType =
     (case find (tagAt buffer (stringToByteArray boxType)) [0..<length buffer - 8] of
        None \<Rightarrow> - 1
      | Some i \<Rightarrow> int i)"

definition getBox :: "jsarray \<Rightarrow> string \<Rightarrow> jsarray option" where
  "getBox buffer boxType =
     (let boxLocation = findBox buffer boxType
      in if boxLocation = - 1 then None
         else let size = byteArrayToInt buffer boxLocation
              in Some (getArraySegment buffer boxLocation (map_option (\<lambda>s. boxLocation + s) size)))"

definition updateBoxSize :: "jsarray \<Rightarrow> jsarray" where
  "updateBoxSize buffer =
     (let sizeBuffer = intToByteArray (Some (int (length buffer)))
      in js_set (js_set (js_set (js_set buffer 0 (js_get sizeBuffer 0)) 1 (js_get sizeBuffer 1))
                   2 (js_get sizeBuffer 2)) 3 (js_get sizeBuffer 3))"

definition createTfdtBox :: "int option \<Rightarrow> jsarray" where
  "createTfdtBox chunkTime =
     updateBoxSize (intToByteArray (Some 0) @ stringToByteArray ''tfdt'' @ [Some 1] @
       [Some 0, Some 0, Some 0] @ longToByteArray chunkTime)"

definition createSaizBox :: "int option \<Rightarrow> jsarray" where
  "createSaizBox ivCount =
     updateBoxSize (intToByteArray (Some 0) @ stringToByteArray ''saiz'' @ [Some 0] @
       intToByteArray (Some 16) @ intToByteArray ivCount)"

definition createSaioBox :: jsarray where
  "createSaioBox =
     updateBoxSize (intToByteArray (Some 0) @ stringToByteArray ''saio'' @
       intToByteArray (Some 0) @ intToByteArray (Some 1) @ intToByteArray (Some 0))"

text \<open>The table \<open>uux.times\<close>, and \<open>uux.times[i]\<close>.\<close>

definition times :: "int list" where
  "times = [0, 20020000, 40040000, 60060000, 80080000, 100100000, 120120000, 140140000,
            160160000, 180180000, 200200000, 220220000, 240240000, 260260000, 280280000,
            300300000, 320320000, 340340000, 360360000, 383049333]"

definition timesAt :: "int \<Rightarrow> int option" where
  "timesAt i = (if 0 \<le> i \<and> i < int (length times) then Some (times ! nat i) else None)"

definition toUint8Array :: "jsarray \<Rightarrow> 8 word list" where
  "toUint8Array result = map (\<lambda>x. case x of None \<Rightarrow> 0 | Some b \<Rightarrow> b) result"

text \<open>
  The two branches of \<open>convertFragment\<close> on \<open>isEncrypted\<close>: each returns the new
  \<open>traf\<close> and \<open>mdat\<close>, or the TypeError of using a box that \<open>getBox\<close> did not find.
  \<open>encryptedTraf\<close> is the \<open>traf\<close> that the encrypted branch reassembles from the
  boxes read, up to its \<open>updateBoxSize\<close>, before the flags of \<open>tfhd\<close> are changed;
  \<open>sencBlock\<close> is the \<open>senc\<close> box built on the way.
\<close>

definition rewritePlain ::
  "jsarray option \<Rightarrow> jsarray option \<Rightarrow> int option \<Rightarrow> error + jsarray \<times> jsarray option" where
  "rewritePlain traf mdat chunkTime =
     (let tfdt = createTfdtBox chunkTime
      in case traf of
           None \<Rightarrow> Inl TypeError
         | Some traf0 \<Rightarrow> Inr (updateBoxSize (appendToArray traf0 tfdt), mdat))"

definition sencBlock :: "int option \<Rightarrow> jsarray \<Rightarrow> jsarray" where
  "sencBlock ivCount ivData =
     updateBoxSize (intToByteArray (Some 0) @ stringToByteArray ''senc'' @
       intToByteArray (Some 2) @ intToByteArray ivCount @ ivData)"

definition encryptedTraf :: "jsarray \<Rightarrow> jsarray \<Rightarrow> jsarray \<Rightarrow> int option \<Rightarrow> jsarray" where
  "encryptedTraf tfhd trun uuid chunkTime =
     (let ivCount = byteArrayToInt trun 12;
          saiz = createSaizBox ivCount;
          saio = createSaioBox;
          tfdt = createTfdtBox chunkTime;
          traf = intToByteArray (Some 0) @ stringToByteArray ''traf'' @ tfhd @ trun @
                   saiz @ saio @ tfdt;
          ivData = getArraySegment uuid 32 (Some (int (length uuid)));
          senc = sencBlock ivCount ivData
      in updateBoxSize (appendToArray traf senc))"

definition rewriteEncrypted ::
  "jsarray \<Rightarrow> jsarray option \<Rightarrow> int option \<Rightarrow> error + jsarray \<times> jsarray option" where
  "rewriteEncrypted buffer mdat chunkTime =
     (let tfhd = getBox buffer ''tfhd'';
          trun = getBox buffer ''trun'';
          sdtp = getBox buffer ''sdtp'';
          uuid = getBox buffer ''uuid''
      in case (trun, tfhd, uuid, mdat) of
           (Some trun1, Some tfhd1, Some uuid1, Some mdat1) \<Rightarrow>
             let traf = encryptedTraf tfhd1 trun1 uuid1 chunkTime;
                 mediaData = getArraySegment mdat1 8 (Some (int (length mdat1)));
                 mdat2 = updateBoxSize (intToByteArray (Some 0) @ stringToByteArray ''mdat'' @
                           mediaData);
                 tfhdPosition = findBox traf ''tfhd''
             in Inr (js_set traf (tfhdPosition + 9) (Some 2), Some mdat2)
         | _ \<Rightarrow> Inl TypeError)"

text \<open>The result array, \<open>moof\<close> followed by \<open>mdat\<close>, before the offsets are corrected.\<close>

definition assembleFragment ::
  "jsarray \<Rightarrow> jsarray \<Rightarrow> int option \<Rightarrow> bool \<Rightarrow> error + jsarray" where
  "assembleFragment buffer mfhd chunkTime isEncrypted =
     (let traf = getBox buffer ''traf'';
          mdat = getBox buffer ''mdat''
      in case (if \<not> isEncrypted then rewritePlain traf mdat chunkTime
               else rewriteEncrypted buffer mdat chunkTime) of
           Inl e \<Rightarrow> Inl e
         | Inr (traf1, mdat1) \<Rightarrow>
             (case mdat1 of
                None \<Rightarrow> Inl TypeError
              | Some mdat2 \<Rightarrow>
                  let moof = updateBoxSize (intToByteArray (Some 0) @ stringToByteArray ''moof'' @
                               mfhd @ traf1)
                  in Inr (appendToArray (appendToArray [] moof) mdat2)))"

text \<open>The correction of the data offset of \<open>trun\<close>, and of the offset of \<open>saio\<close>.\<close>

definition patchTrun :: "jsarray \<Rightarrow> jsarray" where
  "patchTrun result =
     (let mdatPosition = findBox result ''mdat'';
          moofPosition = findBox result ''moof'';
          trunPosition = findBox result ''trun''
      in updateInArray result (intToByteArray (Some (mdatPosition + 8 - moofPosition)))
           (trunPosition + 16))"

definition patchSaio :: "jsarray \<Rightarrow> int \<Rightarrow> jsarray" where
  "patchSaio result moofPosition =
     (let sencPosition = findBox result ''senc'';
          saioPosition = findBox result ''saio''
      in updateInArray result (intToByteArray (Some (sencPosition - moofPosition + 16)))
           (saioPosition + 16))"

text \<open>
  \<open>uux.convertFragment\<close>: the module variable \<open>uux.currentTime\<close> is passed in and
  returned; \<open>chunkTime0\<close> is the argument \<open>chunkTime\<close>, overwritten at once.
\<close>

definition convertFragment ::
  "int \<Rightarrow> 8 word list \<Rightarrow> int option \<Rightarrow> bool \<Rightarrow> (error + 8 word list) \<times> int" where
  "convertFragment currentTime buffer chunkTime0 isEncrypted =
     (let chunkTime = timesAt currentTime;
          currentTime1 = currentTime + 1;
          buf = map Some buffer
      in case getBox buf ''mfhd'' of
           None \<Rightarrow> (Inr buffer, currentTime1)
         | Some mfhd \<Rightarrow>
             (case assembleFragment buf mfhd chunkTime isEncrypted of
                Inl e \<Rightarrow> (Inl e, currentTime1)
              | Inr result \<Rightarrow>
                  let result1 = patchTrun result;
                      result2 = (if isEncrypted then patchSaio result1 (findBox result ''moof'')
                                 else result1)
                  in (Inr (toUint8Array result2), currentTime1)))"

text \<open>
  Fragments to evaluate the rewriter on. \<open>tagScanned\<close> says that the four bytes of a
  type occur at one of the places the scan of \<open>findBox\<close> looks at, the offsets
  \<open>i + 4\<close> with \<open>i < length - 8\<close>, whether or not a box starts there.
  \<open>mfhdAtEnd\<close> ends in an empty \<open>mfhd\<close> box, beyond the reach of the scan;
  \<open>mdatSpellingMfhd\<close> is one \<open>mdat\<close> box whose payload spells \<open>mfhd\<close> after four
  zero bytes.
\<close>

definition tag :: "string \<Rightarrow> 8 word list" where
  "tag s = map (\<lambda>c. of_nat (of_char c)) s"

definition plainFragment :: "8 word list" where
  "plainFragment =
     [0, 0, 0, 68] @ tag ''moof'' @
       [0, 0, 0, 16] @ tag ''mfhd'' @ [0, 0, 0, 0, 0, 0, 0, 1] @
       [0, 0, 0, 44] @ tag ''traf'' @
         [0, 0, 0, 16] @ tag ''tfhd'' @ [0, 0, 0, 0, 0, 0, 0, 1] @
         [0, 0, 0, 20] @ tag ''trun'' @ [0, 0, 0, 1, 0, 0, 0, 1, 0, 0, 0, 0] @
     [0, 0, 0, 12] @ tag ''mdat'' @ [1, 2, 3, 4]"

definition tagScanned :: "8 word list \<Rightarrow> string \<Rightarrow> bool" where
  "tagScanned buffer boxType =
     list_ex (\<lambda>i. take 4 (drop (i + 4) buffer) = tag boxType) [0..<length buffer - 8]"

definition noFragment :: "8 word list" where
  "noFragment = [0, 0, 0, 12] @ tag ''mdat'' @ [1, 2, 3, 4] @ [0, 0, 0, 8] @ tag ''free''"

definition mfhdAtEnd :: "8 word list" where
  "mfhdAtEnd = [0, 0, 0, 12] @ tag ''mdat'' @ [1, 2, 3, 4] @ [0, 0, 0, 8] @ tag ''mfhd''"

definition mdatSpellingMfhd :: "8 word list" where
  "mdatSpellingMfhd =
     [0, 0, 0, 24] @ tag ''mdat'' @ [0, 0, 0, 0] @ tag ''mfhd'' @ [1, 2, 3, 4, 5, 6, 7, 8]"

text \<open>
  The big-endian encodings the claims speak of, written with division rather than taken
  from the rewriter, and the bytes of a \<open>tfdt\<close> box of version 1 (size 20, flags 0)
  with a given base media decode time.
\<close>

definition be32 :: "int \<Rightarrow> 8 word list" where
  "be32 n = map word_of_int [n div 2 ^ 24, n div 2 ^ 16, n div 2 ^ 8, n]"

definition be64 :: "int \<Rightarrow> 8 word list" where
  "be64 n = map word_of_int [n div 2 ^ 56, n div 2 ^ 48, n div 2 ^ 40, n div 2 ^ 32,
                             n div 2 ^ 24, n div 2 ^ 16, n div 2 ^ 8, n]"

definition tfdtBytes :: "int \<Rightarrow> 8 word list" where
  "tfdtBytes t = [0, 0, 0, 20] @ tag ''tfdt'' @ [1, 0, 0, 0] @ be64 t"

text \<open>The number that \<open>numberToByteArray\<close> encodes: \<open>undefined\<close> and \<open>NaN\<close> give zero bytes.\<close>

definition numberOrZero :: "int option \<Rightarrow> int" where
  "numberOrZero v = (case v of None \<Rightarrow> 0 | Some n \<Rightarrow> n)"

text \<open>
  An encrypted fragment (one sample, a sixteen-byte initialisation vector in the
  \<open>uuid\<close> box), and the boxes and the assembled array that the rewriter computes
  for a fragment on the way.
\<close>

definition encFragment :: "8 word list" where
  "encFragment =
     [0, 0, 0, 116] @ tag ''moof'' @
       [0, 0, 0, 16] @ tag ''mfhd'' @ [0, 0, 0, 0, 0, 0, 0, 1] @
       [0, 0, 0, 92] @ tag ''traf'' @
         [0, 0, 0, 16] @ tag ''tfhd'' @ [0, 0, 0, 0, 0, 0, 0, 1] @
         [0, 0, 0, 20] @ tag ''trun'' @ [0, 0, 0, 1, 0, 0, 0, 1, 0, 0, 0, 0] @
         [0, 0, 0, 48] @ tag ''uuid'' @
           [162, 57, 79, 82, 90, 155, 79, 20, 162, 68, 108, 66, 124, 100, 141, 244] @
           [0, 0, 0, 0, 0, 0, 0, 1] @
           [1, 2, 3, 4, 5, 6, 7, 8, 9, 10, 11, 12, 13, 14, 15, 16] @
     [0, 0, 0, 12] @ tag ''mdat'' @ [1, 2, 3, 4]"

definition mfhdOf :: "8 word list \<Rightarrow> jsarray" where
  "mfhdOf buffer = the (getBox (map Some buffer) ''mfhd'')"

definition trafOf :: "8 word list \<Rightarrow> jsarray" where
  "trafOf buffer = the (getBox (map Some buffer) ''traf'')"

definition resultOf :: "int \<Rightarrow> 8 word list \<Rightarrow> bool \<Rightarrow> jsarray" where
  "resultOf currentTime buffer isEncrypted =
     projr (assembleFragment (map Some buffer) (mfhdOf buffer) (timesAt currentTime) isEncrypted)"

text \<open>
  What it means for a run of bytes to consist of boxes: each box starts with its size,
  a big-endian 32-bit integer counting the eight bytes of the header, and the four bytes
  of its type; the next box starts where it ends. \<open>childTypes\<close> is the list of the
  types, or \<open>None\<close> when the bytes are not a sequence of boxes. \<open>wfBox\<close> says that a
  JavaScript array starts with the header of a box of a given type and of the array's
  own length.
\<close>

definition be32_decode :: "8 word list \<Rightarrow> nat" where
  "be32_decode bs = foldl (\<lambda>v b. v * 256 + unat b) 0 (take 4 bs)"

function childTypes :: "8 word list \<Rightarrow> 8 word list list option" where
  "childTypes bs =
     (if bs = [] then Some []
      else if length bs < 8 then None
      else let size = be32_decode bs
           in if size < 8 \<or> length bs < size then None
              else (case childTypes (drop size bs) of
                      None \<Rightarrow> None
                    | Some ts \<Rightarrow> Some (take 4 (drop 4 bs) # ts)))"
  by pat_completeness auto
termination
  by (relation "measure length") auto

declare childTypes.simps [simp del]

definition wfBox :: "string \<Rightarrow> jsarray \<Rightarrow> bool" where
  "wfBox t b \<longleftrightarrow> 8 \<le> length b \<and> length b < 4294967296 \<and>
     take 8 b = map Some (be32 (int (length b)) @ tag t)"

text \<open>
  An encrypted fragment whose \<open>trun\<close> box has no data-offset field (no flags, one
  sample: sixteen bytes), and the box of a given type that the rewriter reads from a
  fragment.
\<close>

definition shortTrunFragment :: "8 word list" where
  "shortTrunFragment =
     [0, 0, 0, 112] @ tag ''moof'' @
       [0, 0, 0, 16] @ tag ''mfhd'' @ [0, 0, 0, 0, 0, 0, 0, 1] @
       [0, 0, 0, 88] @ tag ''traf'' @
         [0, 0, 0, 16] @ tag ''tfhd'' @ [0, 0, 0, 0, 0, 0, 0, 1] @
         [0, 0, 0, 16] @ tag ''trun'' @ [0, 0, 0, 0, 0, 0, 0, 1] @
         [0, 0, 0, 48] @ tag ''uuid'' @
           [162, 57, 79, 82, 90, 155, 79, 20, 162, 68, 108, 66, 124, 100, 141, 244] @
           [0, 0, 0, 0, 0, 0, 0, 1] @
           [1, 2, 3, 4, 5, 6, 7, 8, 9, 10, 11, 12, 13, 14, 15, 16] @
     [0, 0, 0, 12] @ tag ''mdat'' @ [1, 2, 3, 4]"

definition boxOf :: "8 word list \<Rightarrow> string \<Rightarrow> jsarray" where
  "boxOf buffer boxType = the (getBox (map Some buffer) boxType)"

text \<open>
  Where a box is in a run of boxes: \<open>childBox t bs\<close> walks the boxes of \<open>bs\<close> from the
  first, each to the next by its size field, and gives the offset and the size of the
  first box of type \<open>t\<close>; \<open>locate\<close> follows a path of types from the outermost box
  inwards, the content of a box starting eight bytes after the box, and gives the
  offset from the start of the whole run. Unlike the scan of \<open>findBox\<close>, which matches
  the four bytes of a type wherever they occur, these look at box headers only.
\<close>

function childBox :: "8 word list \<Rightarrow> 8 word list \<Rightarrow> (nat \<times> nat) option" where
  "childBox t bs =
     (if length bs < 8 then None
      else let size = be32_decode bs
           in if size < 8 \<or> length bs < size then None
              else if take 4 (drop 4 bs) = t then Some (0, size)
              else map_option (\<lambda>(p, n). (size + p, n)) (childBox t (drop size bs)))"
  by pat_completeness auto
termination
  by (relation "measure (\<lambda>(t, bs). length bs)") auto

declare childBox.simps [simp del]

fun locate :: "8 word list list \<Rightarrow> 8 word list \<Rightarrow> (nat \<times> nat) option" where
  "locate [] bs = None"
| "locate [t] bs = childBox t bs"
| "locate (t # ts) bs =
     (case childBox t bs of
        None \<Rightarrow> None
      | Some (p, n) \<Rightarrow>
          map_option (\<lambda>(q, m). (p + 8 + q, m)) (locate ts (take (n - 8) (drop (p + 8) bs))))"

text \<open>
  Two fragments in which four bytes of a field spell the type of a box: the track
  identifier of \<open>tfhd\<close> in the unencrypted \<open>trunIdFragment\<close> spells \<open>trun\<close>, the
  sequence number of \<open>mfhd\<close> in the encrypted \<open>sencSeqFragment\<close> spells \<open>senc\<close>.
\<close>

definition trunIdFragment :: "8 word list" where
  "trunIdFragment =
     [0, 0, 0, 68] @ tag ''moof'' @
       [0, 0, 0, 16] @ tag ''mfhd'' @ [0, 0, 0, 0, 0, 0, 0, 1] @
       [0, 0, 0, 44] @ tag ''traf'' @
         [0, 0, 0, 16] @ tag ''tfhd'' @ [0, 0, 0, 0] @ tag ''trun'' @
         [0, 0, 0, 20] @ tag ''trun'' @ [0, 0, 0, 1, 0, 0, 0, 1, 0, 0, 0, 0] @
     [0, 0, 0, 12] @ tag ''mdat'' @ [1, 2, 3, 4]"

definition sencSeqFragment :: "8 word list" where
  "sencSeqFragment =
     [0, 0, 0, 116] @ tag ''moof'' @
       [0, 0, 0, 16] @ tag ''mfhd'' @ [0, 0, 0, 0] @ tag ''senc'' @
       [0, 0, 0, 92] @ tag ''traf'' @
         [0, 0, 0, 16] @ tag ''tfhd'' @ [0, 0, 0, 0, 0, 0, 0, 1] @
         [0, 0, 0, 20] @ tag ''trun'' @ [0, 0, 0, 1, 0, 0, 0, 1, 0, 0, 0, 0] @
         [0, 0, 0, 48] @ tag ''uuid'' @
           [162, 57, 79, 82, 90, 155, 79, 20, 162, 68, 108, 66, 124, 100, 141, 244] @
           [0, 0, 0, 0, 0, 0, 0, 1] @
           [1, 2, 3, 4, 5, 6, 7, 8, 9, 10, 11, 12, 13, 14, 15, 16] @
     [0, 0, 0, 12] @ tag ''mdat'' @ [1, 2, 3, 4]"

section \<open>The box-tree fragment rewriter\<close>

text \<open>
  Modelled from the spec: the box tree of \<open>mp4lib\<close>, which is not among the sources. A
  box is the spec's Box, a node of the parsed tree with a type tag, fields and child
  boxes; the fields are kept by name, with the values the rewriter reads and writes
  (numbers, arrays of numbers, \<open>undefined\<close>; the entries of \<open>sepiff\<close> by their
  \<open>NumberOfEntries\<close>). The methods of a container are taken by their names:
  \<open>getBoxByType\<close> is the first child of the type or \<open>null\<close>, \<open>getBoxesByType\<close> all
  children of the type, \<open>getBoxPositionByType\<close> the index of the first one or \<open>-1\<close>,
  \<open>removeBoxByType\<close> removes the children of the type. The objects are mutable in the
  source; here a change of a child is written back into its parent.
\<close>

unbundle bit_operations_syntax

datatype jsval = Undefined | NaN | Num int | NumList "int list" | Str string

datatype box = Box (boxtype: string) (props: "(string \<times> jsval) list") (boxes: "box list")

definition field :: "box \<Rightarrow> string \<Rightarrow> jsval" where
  "field b k = (case map_of (props b) k of None \<Rightarrow> Undefined | Some v \<Rightarrow> v)"

definition setProp :: "string \<Rightarrow> jsval \<Rightarrow> box \<Rightarrow> box" where
  "setProp k v b = Box (boxtype b) ((k, v) # filter (\<lambda>p. fst p \<noteq> k) (props b)) (boxes b)"

definition toInt32 :: "jsval \<Rightarrow> int" where
  "toInt32 v = (case v of Num n \<Rightarrow> n | _ \<Rightarrow> 0)"

definition getBoxByType :: "box \<Rightarrow> string \<Rightarrow> box option" where
  "getBoxByType b t = find (\<lambda>c. boxtype c = t) (boxes b)"

definition getBoxesByType :: "box \<Rightarrow> string \<Rightarrow> box list" where
  "getBoxesByType b t = filter (\<lambda>c. boxtype c = t) (boxes b)"

fun positionFrom :: "nat \<Rightarrow> string \<Rightarrow> box list \<Rightarrow> int" where
  "positionFrom i t [] = - 1"
| "positionFrom i t (c # cs) = (if boxtype c = t then int i else positionFrom (Suc i) t cs)"

definition getBoxPositionByType :: "box \<Rightarrow> string \<Rightarrow> int" where
  "getBoxPositionByType b t = positionFrom 0 t (boxes b)"

definition removeBoxByType :: "string \<Rightarrow> box \<Rightarrow> box" where
  "removeBoxByType t b = Box (boxtype b) (props b) (filter (\<lambda>c. boxtype c \<noteq> t) (boxes b))"

fun updateFirst :: "string \<Rightarrow> (box \<Rightarrow> box) \<Rightarrow> box list \<Rightarrow> box list" where
  "updateFirst t f [] = []"
| "updateFirst t f (c # cs) = (if boxtype c = t then f c # cs else c # updateFirst t f cs)"

definition updateChild :: "string \<Rightarrow> (box \<Rightarrow> box) \<Rightarrow> box \<Rightarrow> box" where
  "updateChild t f b = Box (boxtype b) (props b) (updateFirst t f (boxes b))"

definition updateLastChild :: "(box \<Rightarrow> box) \<Rightarrow> box \<Rightarrow> box" where
  "updateLastChild f b =
     Box (boxtype b) (props b)
       (case boxes b of [] \<Rightarrow> [] | _ \<Rightarrow> butlast (boxes b) @ [f (last (boxes b))])"

definition pushBox :: "box \<Rightarrow> box \<Rightarrow> box" where
  "pushBox c b = Box (boxtype b) (props b) (boxes b @ [c])"

definition spliceBox :: "int \<Rightarrow> box \<Rightarrow> box \<Rightarrow> box" where
  "spliceBox pos c b =
     Box (boxtype b) (props b) (take (nat pos) (boxes b) @ [c] @ drop (nat pos) (boxes b))"

text \<open>
  The parser, the serializer and the length of the serialized tree are parameters:
  \<open>deserialize\<close> gives \<open>None\<close> where \<open>mp4lib.deserialize\<close> returns no fragment.
\<close>

record mp4lib =
  deserialize :: "8 word list \<Rightarrow> box option"
  serialize :: "box \<Rightarrow> 8 word list"
  getLength :: "box \<Rightarrow> int"

text \<open>
  The loop over the samples of \<open>sepiff\<close> fills \<open>saiz.sample_info_size\<close>; reading the
  \<open>NumberOfEntries\<close> of an entry that does not exist throws.
\<close>

definition sampleInfoSizes :: "box \<Rightarrow> error + int list" where
  "sampleInfoSizes sepiff =
     (case field sepiff ''sample_count'' of
        Num n \<Rightarrow>
          (case field sepiff ''entry'' of
             NumList es \<Rightarrow>
               if int (length es) < n then Inl TypeError
               else Inr (map (\<lambda>e. 8 + e * 6 + 2) (take (nat n) es))
           | _ \<Rightarrow> if n \<le> 0 then Inr [] else Inl TypeError)
      | _ \<Rightarrow> Inr [])"

definition newSaiz :: "box \<Rightarrow> error + box" where
  "newSaiz sepiff =
     (let saiz = Box ''saiz''
            [(''version'', Num 0), (''flags'', Num 0),
             (''sample_count'', field sepiff ''sample_count''),
             (''default_sample_info_size'', Num 0), (''sample_info_size'', NumList [])] []
      in if toInt32 (field sepiff ''flags'') AND 2 \<noteq> 0
         then (case sampleInfoSizes sepiff of
                 Inl e \<Rightarrow> Inl e
               | Inr sizes \<Rightarrow>
                   if list_all (\<lambda>x. x = hd sizes) sizes
                   then Inr (setProp ''sample_info_size'' (NumList [])
                          (setProp ''default_sample_info_size''
                             (case sizes of [] \<Rightarrow> Undefined | x # _ \<Rightarrow> Num x) saiz))
                   else Inr (setProp ''sample_info_size'' (NumList sizes) saiz))
         else Inr (setProp ''default_sample_info_size'' (Num 8) saiz))"

definition newSaio :: box where
  "newSaio = Box ''saio''
     [(''version'', Num 0), (''flags'', Num 0), (''entry_count'', Num 1), (''offset'', NumList [])] []"

definition newTfdt :: "int \<Rightarrow> box" where
  "newTfdt t = Box ''tfdt''
     [(''version'', Num 1), (''flags'', Num 0), (''baseMediaDecodeTime'', Num t)] []"

text \<open>
  The branch \<open>if (sepiff !== null)\<close>: \<open>sepiff\<close> is renamed to \<open>senc\<close>, the \<open>saiz\<close>
  and \<open>saio\<close> boxes are replaced by new ones. \<open>addTfdt\<close> is the creation of \<open>tfdt\<close>
  after \<open>tfhd\<close> when \<open>traf\<close> has none.
\<close>

definition protectTraf :: "box \<Rightarrow> error + box" where
  "protectTraf traf =
     (case getBoxByType traf ''sepiff'' of
        None \<Rightarrow> Inr traf
      | Some sepiff \<Rightarrow>
          let traf1 = updateChild ''sepiff''
                (\<lambda>b. setProp ''extended_type'' Undefined (Box ''senc'' (props b) (boxes b))) traf;
              traf2 = removeBoxByType ''saio'' (removeBoxByType ''saiz'' traf1)
          in (case newSaiz sepiff of
                Inl e \<Rightarrow> Inl e
              | Inr saiz \<Rightarrow> Inr (pushBox newSaio (pushBox saiz traf2))))"

definition addTfdt :: "int \<Rightarrow> box \<Rightarrow> box" where
  "addTfdt t traf =
     (case getBoxByType traf ''tfdt'' of
        Some tfdt \<Rightarrow> traf
      | None \<Rightarrow> spliceBox (getBoxPositionByType traf ''tfhd'' + 1) (newTfdt t) traf)"

text \<open>
  \<open>convertFragment\<close> of \<open>uux.MssFragmentController\<close>. The result is \<open>Inr None\<close>
  for \<open>null\<close>, \<open>Inr (Some bytes)\<close> for a buffer, and the TypeError of using a box
  that is not there.
\<close>

definition MssFragmentController_convertFragment ::
  "mp4lib \<Rightarrow> 8 word list \<Rightarrow> segmentReference \<Rightarrow> 'si \<Rightarrow> error + 8 word list option" where
  "MssFragmentController_convertFragment lib data reference info =
     (case deserialize lib data of
        None \<Rightarrow> Inr None
      | Some fragment \<Rightarrow>
          (case getBoxByType fragment ''moof'' of
             None \<Rightarrow> Inr (Some data)
           | Some moof \<Rightarrow>
               (case getBoxByType moof ''traf'' of
                  None \<Rightarrow> Inl TypeError
                | Some traf \<Rightarrow>
                    (case protectTraf traf of
                       Inl e \<Rightarrow> Inl e
                     | Inr traf1 \<Rightarrow>
                         (case (getBoxByType traf ''tfhd'', getBoxByType traf ''trun'',
                                getBoxByType fragment ''mdat'') of
                            (Some tfhd, Some trun, Some mdat) \<Rightarrow>
                              let encrypted = (getBoxByType traf ''sepiff'' \<noteq> None);
                                  traf2 = updateChild ''tfhd'' (setProp ''track_ID'' (Num 1)) traf1;
                                  traf3 = removeBoxByType ''tfxd'' traf2;
                                  traf4 = addTfdt (ref_id reference) traf3;
                                  traf5 = (if getBoxesByType traf4 ''tfrf'' \<noteq> []
                                           then removeBoxByType ''tfrf'' traf4 else traf4);
                                  traf6 = updateChild ''tfhd''
                                    (\<lambda>b. setProp ''flags''
                                       (Num ((toInt32 (field b ''flags'') AND 0xFFFFFE) OR 0x020000)) b)
                                    traf5;
                                  traf7 = updateChild ''trun''
                                    (\<lambda>b. setProp ''data_offset'' (Num 0)
                                       (setProp ''flags'' (Num (toInt32 (field b ''flags'') OR 1)) b))
                                    traf6;
                                  rebuild = (\<lambda>t. updateChild ''moof''
                                       (updateChild ''traf'' (\<lambda>_. t)) fragment);
                                  fragment_size = getLength lib (rebuild traf7);
                                  traf8 = updateChild ''trun''
                                    (setProp ''data_offset''
                                       (case field mdat ''size'' of
                                          Num n \<Rightarrow> Num (fragment_size - n + 8)
                                        | _ \<Rightarrow> NaN))
                                    traf7;
                                  traf9 = (if encrypted
                                    then updateLastChild
                                      (setProp ''offset''
                                         (NumList [getBoxPositionByType (rebuild traf8) ''moof'' + 8 +
                                            (getBoxPositionByType
                                               (updateChild ''traf'' (\<lambda>_. traf8) moof) ''traf'' + 8) +
                                            (getBoxPositionByType traf8 ''senc'' + 8) + 8]))
                                      traf8
                                    else traf8)
                              in Inr (Some (serialize lib (rebuild traf9)))
                          | _ \<Rightarrow> Inl TypeError)))))"

text \<open>A library that parses every non-empty buffer into a tree without \<open>moof\<close>.\<close>

definition toyLib :: mp4lib where
  "toyLib = \<lparr>deserialize = (\<lambda>d. if d = [] then None else Some (Box ''file'' [] [Box ''mdat'' [] []])),
             serialize = (\<lambda>b. []), getLength = (\<lambda>b. 0)\<rparr>"

definition toyReference :: segmentReference where
  "toyReference = \<lparr>ref_id = 5, ref_url = ''A'', startByte = 0, endByte = 999, startTime = 0,
                    endTime = Some 2\<rparr>"

text \<open>
  A parsed protected fragment, and a library whose serializer writes the types of the
  children of \<open>traf\<close>, to run the rewriter on.
\<close>

definition sampleTree :: box where
  "sampleTree = Box ''file'' []
     [Box ''moof'' []
        [Box ''mfhd'' [] [],
         Box ''traf'' []
           [Box ''tfhd'' [(''flags'', Num 1)] [],
            Box ''trun'' [(''flags'', Num 0x300)] [],
            Box ''tfxd'' [] [],
            Box ''sepiff'' [(''flags'', Num 0), (''sample_count'', Num 1)] []]],
      Box ''mdat'' [(''size'', Num 12)] []]"

definition typesLib :: mp4lib where
  "typesLib = \<lparr>deserialize = (\<lambda>d. Some sampleTree),
      serialize = (\<lambda>b. concat (map (\<lambda>m. concat (map (\<lambda>t. concat (map (tag \<circ> boxtype) (boxes t)))
                     (boxes m))) (boxes b))),
      getLength = (\<lambda>b. 100)\<rparr>"

section \<open>Properties of the buffered-range queries\<close>

lemma floorlog2_le:
  assumes "0 < x"
  shows "2 powi floorlog2 x \<le> x"
proof -
  obtain a b where q: "quotient_of x = (a, b)" by (cases "quotient_of x")
  then have b: "0 < b" by (rule quotient_of_denom_pos)
  have x: "x = of_int a / of_int b" using q by (rule quotient_of_div)
  with assms b have a: "0 < a" by (simp add: zero_less_divide_iff)
  define d where "d = bitlen a - bitlen b"
  show ?thesis
  proof (cases "2 powi d \<le> x")
    case True
    then show ?thesis by (simp add: floorlog2_def q d_def)
  next
    case False
    have la: "0 < bitlen a" and lb: "0 < bitlen b"
      using a b bitlen_nonneg [of a] bitlen_nonneg [of b]
        bitlen_eq_zero_iff [of a] bitlen_eq_zero_iff [of b] by linarith+
    have "(2::int) ^ nat (bitlen a - 1) \<le> a" and "b < 2 ^ nat (bitlen b)"
      using bitlen_bounds [OF a] bitlen_bounds [OF b] by simp_all
    then have 1: "(2::rat) ^ nat (bitlen a - 1) \<le> of_int a"
      and 2: "(of_int b :: rat) \<le> 2 ^ nat (bitlen b)"
      by (metis of_int_le_iff of_int_numeral of_int_power,
          metis less_imp_le of_int_le_iff of_int_numeral of_int_power)
    have "(2::rat) powi (d - 1) = 2 powi (bitlen a - 1) / 2 powi bitlen b"
      using power_int_diff [of "2::rat" "bitlen a - 1" "bitlen b"] by (simp add: d_def algebra_simps)
    also have "(2::rat) powi (bitlen a - 1) = 2 ^ nat (bitlen a - 1)"
      using la by (simp add: power_int_def)
    also have "(2::rat) powi bitlen b = 2 ^ nat (bitlen b)"
      using lb by (simp add: power_int_def)
    finally have "(2::rat) powi (d - 1) = 2 ^ nat (bitlen a - 1) / 2 ^ nat (bitlen b)" .
    also have "\<dots> \<le> of_int a / of_int b"
      using 1 2 a b by (intro frac_le) simp_all
    finally have "2 powi (d - 1) \<le> x" by (simp only: x)
    moreover have "floorlog2 x = d - 1"
      using False by (simp add: floorlog2_def q d_def)
    ultimately show ?thesis by simp
  qed
qed

lemma roundHalfEven_pos: "1 \<le> y \<Longrightarrow> 1 \<le> roundHalfEven y"
proof -
  assume "1 \<le> y"
  then have "1 \<le> \<lfloor>y\<rfloor>" by simp
  then show ?thesis by (simp add: roundHalfEven_def Let_def)
qed

lemma roundHalfEven_neg: "y < 0 \<Longrightarrow> roundHalfEven y \<le> 0"
proof -
  assume "y < 0"
  then have "\<lfloor>y\<rfloor> < 0" by (simp add: floor_less_iff)
  then show ?thesis by (simp add: roundHalfEven_def Let_def)
qed

lemma pow2_pos [simp]: "0 < (2::rat) powi q"
  by (simp add: power_int_def)

lemma minSubnormal_pos: "0 < minSubnormal"
  by (simp only: minSubnormal_def pow2_pos)

lemma roundDouble_nonzero:
  assumes "z \<noteq> 0"
  defines "q \<equiv> max (floorlog2 \<bar>z\<bar> - 52) (- 1074)"
  defines "m \<equiv> roundHalfEven (z / 2 powi q)"
  shows "roundDouble z = Finite (of_int m * 2 powi q) \<or>
         0 < z \<and> roundDouble z = PlusInfinity \<or> z < 0 \<and> roundDouble z = MinusInfinity"
proof -
  have "roundDouble z =
      (if (2::rat) ^ 1024 \<le> \<bar>of_int m * 2 powi q\<bar>
       then (if 0 < z then PlusInfinity else MinusInfinity)
       else Finite (of_int m * 2 powi q))"
    using assms(1) by (simp only: roundDouble_def Let_def q_def m_def if_False)
  then have rd: "roundDouble z =
      (if (2::rat) ^ 1024 \<le> \<bar>of_int m * 2 powi q\<bar>
       then (if 0 < z then PlusInfinity else MinusInfinity)
       else Finite (of_int m * 2 powi q))" .
  show ?thesis
  proof (cases "(2::rat) ^ 1024 \<le> \<bar>of_int m * 2 powi q\<bar>")
    case False
    with rd have "roundDouble z = Finite (of_int m * 2 powi q)" by (simp only: if_False)
    then show ?thesis by blast
  next
    case True
    show ?thesis
    proof (cases "0 < z")
      case True
      with rd \<open>(2::rat) ^ 1024 \<le> \<bar>of_int m * 2 powi q\<bar>\<close>
      have "roundDouble z = PlusInfinity" by (simp only: if_True)
      with True show ?thesis by blast
    next
      case False
      then have "z < 0" using assms(1) by simp
      moreover from rd False \<open>(2::rat) ^ 1024 \<le> \<bar>of_int m * 2 powi q\<bar>\<close>
      have "roundDouble z = MinusInfinity" by (simp only: if_True if_False)
      ultimately show ?thesis by blast
    qed
  qed
qed

lemma isDouble_grid:
  assumes "isDouble x"
  shows "\<exists>k::int. x = of_int k * minSubnormal"
proof (cases "x = 0")
  case True
  then show ?thesis by (intro exI [of _ 0]) simp
next
  case False
  define q where "q = max (floorlog2 \<bar>x\<bar> - 52) (- 1074)"
  define m where "m = roundHalfEven (x / 2 powi q)"
  from assms roundDouble_nonzero [OF False] have "x = of_int m * 2 powi q"
    by (auto simp only: isDouble_def q_def m_def jsnumber.inject jsnumber.distinct)
  moreover have "(2::rat) powi q = 2 ^ nat (q + 1074) * minSubnormal"
  proof -
    have "0 \<le> q + 1074" by (simp add: q_def)
    then have "(2::rat) ^ nat (q + 1074) = 2 powi (q + 1074)" by (simp add: power_int_def)
    then show ?thesis
      using power_int_add [of "2::rat" "q + 1074" "- 1074"] by (simp add: minSubnormal_def)
  qed
  ultimately have "x = of_int (m * 2 ^ nat (q + 1074)) * minSubnormal"
    by simp
  then show ?thesis by blast
qed

lemma roundDouble_pos:
  assumes "0 < z" "z = of_int k * minSubnormal"
  shows "js_less (Finite 0) (roundDouble z)"
proof -
  define q where "q = max (floorlog2 \<bar>z\<bar> - 52) (- 1074)"
  define m where "m = roundHalfEven (z / 2 powi q)"
  have "1 \<le> z / 2 powi q"
  proof (cases "floorlog2 \<bar>z\<bar> - 52 \<le> - 1074")
    case True
    then have q: "2 powi q = minSubnormal" by (simp add: q_def minSubnormal_def)
    from assms minSubnormal_pos have "0 < k" by (simp add: zero_less_mult_iff)
    then have "(1::rat) \<le> of_int k" by simp
    moreover have "z / 2 powi q = of_int k"
      using minSubnormal_pos by (simp add: q assms(2))
    ultimately show ?thesis by simp
  next
    case False
    then have q: "q = floorlog2 z - 52" using assms(1) by (simp add: q_def)
    have "2 powi floorlog2 z \<le> z" using assms(1) by (rule floorlog2_le)
    moreover have "(2::rat) powi floorlog2 z = 2 powi q * 2 ^ 52"
      using power_int_add [of "2::rat" q 52] by (simp add: q)
    ultimately have "2 powi q * 2 ^ 52 \<le> z" by simp
    then have "(2::rat) ^ 52 \<le> z / 2 powi q"
      by (simp only: pos_le_divide_eq pow2_pos mult.commute)
    moreover have "(1::rat) \<le> 2 ^ 52" by simp
    ultimately show ?thesis by (rule order_trans [rotated])
  qed
  then have "1 \<le> m" unfolding m_def by (rule roundHalfEven_pos)
  then have "0 < (of_int m :: rat) * 2 powi q" by (simp add: zero_less_mult_iff)
  moreover from assms(1) have "z \<noteq> 0" by simp
  note roundDouble_nonzero [OF this, folded q_def, folded m_def]
  ultimately show ?thesis
    using assms(1) by (auto simp: js_less_def)
qed

lemma roundDouble_neg:
  assumes "z < 0"
  shows "\<not> js_less (Finite 0) (roundDouble z)"
proof -
  define q where "q = max (floorlog2 \<bar>z\<bar> - 52) (- 1074)"
  define m where "m = roundHalfEven (z / 2 powi q)"
  have "z / 2 powi q < 0" using assms by (simp add: divide_neg_pos)
  then have "m \<le> 0" unfolding m_def by (rule roundHalfEven_neg)
  then have "(of_int m :: rat) * 2 powi q \<le> 0" by (simp add: mult_le_0_iff)
  moreover from assms have "z \<noteq> 0" by simp
  note roundDouble_nonzero [OF this, folded q_def, folded m_def]
  ultimately show ?thesis
    using assms by (auto simp: js_less_def)
qed

lemma js_sub_positive_iff:
  assumes "isDouble e" "isDouble x"
  shows "js_less (Finite 0) (js_sub (Finite e) (Finite x)) \<longleftrightarrow> x < e"
proof -
  from assms obtain k l :: int where "e = of_int k * minSubnormal" "x = of_int l * minSubnormal"
    using isDouble_grid by blast
  then have g: "e - x = of_int (k - l) * minSubnormal" by (simp add: left_diff_distrib)
  consider "x < e" | "x = e" | "e < x" by linarith
  then show ?thesis
  proof cases
    case 1
    then have "0 < e - x" by simp
    then have "js_less (Finite 0) (roundDouble (e - x))" using g by (rule roundDouble_pos)
    with 1 show ?thesis by (simp add: js_sub_def)
  next
    case 2
    then show ?thesis by (simp add: js_sub_def roundDouble_def js_less_def)
  next
    case 3
    then have "\<not> js_less (Finite 0) (roundDouble (e - x))" by (intro roundDouble_neg) simp
    with 3 show ?thesis by (simp add: js_sub_def)
  qed
qed

lemma bufferedAheadOf_outside:
  "\<forall>r \<in> set b. \<not> inFudged r t \<Longrightarrow> bufferedAheadOf b t = Finite 0"
  by (induction b) (auto simp: inFudged_def)

lemma bufferedAheadOf_first:
  "i < length b \<Longrightarrow> inFudged (b ! i) t \<Longrightarrow> \<forall>j < i. \<not> inFudged (b ! j) t \<Longrightarrow>
   bufferedAheadOf b t = js_sub (snd (b ! i)) t"
proof (induction b arbitrary: i)
  case Nil
  then show ?case by simp
next
  case (Cons r b)
  obtain s e where r: "r = (s, e)" by (cases r)
  show ?case
  proof (cases i)
    case 0
    with Cons.prems r show ?thesis by (simp add: inFudged_def)
  next
    case (Suc k)
    from Cons.prems(3) Suc have "\<not> inFudged ((r # b) ! 0) t" by blast
    then have out: "\<not> inFudged (s, e) t" using r by simp
    from Cons.prems Suc have "k < length b" "inFudged (b ! k) t"
      "\<forall>j < k. \<not> inFudged (b ! j) t" by auto
    then have "bufferedAheadOf b t = js_sub (snd (b ! k)) t" by (rule Cons.IH)
    with r Suc show ?thesis using out by (auto simp: inFudged_def)
  qed
qed

lemma ranges_eval:
  "js_sub (Finite 0) FUDGE_FACTOR = Finite (- (4803839602528529 / 288230376151711744))"
  "js_add (Finite 10) FUDGE_FACTOR = Finite (5638882033436809 / 562949953421312)"
  "js_sub (Finite 10) (Finite 5) = Finite 5"
  "js_sub (Finite 10) (Finite 10) = Finite 0"
  "isDouble 10" "isDouble 5"
  by code_simp+

text \<open>
  Claim C8, as stated, at the end boundary: the range \<open>[0, 10]\<close> is reported and the
  timestamp \<open>10\<close> is inside the range widened by the tolerance, yet nothing is buffered
  ahead of it and \<open>isBuffered\<close> is false.
\<close>

theorem isBuffered_end_boundary_counterexample:
  "(Finite 0, Finite 10) \<in> set [(Finite 0, Finite 10)] \<and>
   js_less_eq (js_sub (Finite 0) FUDGE_FACTOR) (Finite 10) \<and>
   js_less_eq (Finite 10) (js_add (Finite 10) FUDGE_FACTOR) \<and>
   \<not> isBuffered [(Finite 0, Finite 10)] (Finite 10)"
  by (simp add: isBuffered_def js_less_def ranges_eval)

text \<open>
  Claim C8, amended: for the first reported range \<open>[s, e]\<close> whose bounds, widened by
  the tolerance in double arithmetic, contain \<open>t\<close>, \<open>bufferedAheadOf t\<close> is the
  difference \<open>e - t\<close> of doubles, and for finite \<open>e\<close> and \<open>t\<close> \<open>isBuffered t\<close> holds
  exactly when \<open>t < e\<close>: a timestamp at the end boundary or beyond it is not buffered.
  For \<open>t\<close> outside every widened range, \<open>bufferedAheadOf t\<close> is \<open>0\<close> and
  \<open>isBuffered t\<close> is false.
\<close>

theorem bufferedAheadOf_first_range:
  "(i < length b \<and> inFudged (b ! i) t \<and> (\<forall>j < i. \<not> inFudged (b ! j) t) \<longrightarrow>
      bufferedAheadOf b t = js_sub (snd (b ! i)) t \<and>
      (\<forall>e x. snd (b ! i) = Finite e \<and> t = Finite x \<and> isDouble e \<and> isDouble x \<longrightarrow>
         isBuffered b t = (x < e))) \<and>
   ((\<forall>r \<in> set b. \<not> inFudged r t) \<longrightarrow> bufferedAheadOf b t = Finite 0 \<and> \<not> isBuffered b t)"
proof (intro conjI impI allI)
  assume h: "i < length b \<and> inFudged (b ! i) t \<and> (\<forall>j < i. \<not> inFudged (b ! j) t)"
  then show v: "bufferedAheadOf b t = js_sub (snd (b ! i)) t"
    by (simp add: bufferedAheadOf_first)
  fix e x
  assume "snd (b ! i) = Finite e \<and> t = Finite x \<and> isDouble e \<and> isDouble x"
  with v show "isBuffered b t = (x < e)"
    by (simp add: isBuffered_def js_sub_positive_iff)
next
  assume h: "\<forall>r \<in> set b. \<not> inFudged r t"
  then show "bufferedAheadOf b t = Finite 0" by (rule bufferedAheadOf_outside)
  then show "\<not> isBuffered b t" by (simp add: isBuffered_def js_less_def)
qed

theorem bufferedAheadOf_first_range_witness:
  "(0 < length [(Finite 0, Finite 10)] \<and> inFudged ([(Finite 0, Finite 10)] ! 0) (Finite 5) \<and>
    isDouble 10 \<and> isDouble 5 \<and>
    bufferedAheadOf [(Finite 0, Finite 10)] (Finite 5) = Finite 5 \<and>
    isBuffered [(Finite 0, Finite 10)] (Finite 5)) \<and>
   (\<not> inFudged (Finite 0, Finite 10) (Finite 20) \<and>
    bufferedAheadOf [(Finite 0, Finite 10)] (Finite 20) = Finite 0 \<and>
    \<not> isBuffered [(Finite 0, Finite 10)] (Finite 20))"
  using bufferedAheadOf_first_range [of 0 "[(Finite 0, Finite 10)]" "Finite 5"]
    bufferedAheadOf_first_range [of 0 "[(Finite 0, Finite 10)]" "Finite 20"]
  by (simp add: inFudged_def ranges_eval)

section \<open>Properties of fetch and clear while a task is active\<close>

text \<open>
  Claim C7: whenever a task is active, \<open>fetch\<close> and \<open>clear\<close> reject with the
  operation-in-progress error (an error of type \<open>stream\<close>), leave the inserted map
  as it was and make no call on the SourceBuffer; the task is not started.
\<close>

theorem busy_fetch_clear_reject:
  "task m \<noteq> None \<Longrightarrow>
   snd (fetch run m references initSegment endEarlyOn si) =
     Rejected (StreamError ''Cannot fetch: previous operation not complete.'') \<and>
   inserted (fst (fetch run m references initSegment endEarlyOn si)) = inserted m \<and>
   sinkCalls (fst (fetch run m references initSegment endEarlyOn si)) = sinkCalls m \<and>
   snd (clear run m) = Rejected (StreamError ''Cannot clear: previous operation not complete.'') \<and>
   inserted (fst (clear run m)) = inserted m \<and>
   sinkCalls (fst (clear run m)) = sinkCalls m"
  by (simp add: fetch_def clear_def Let_def)

theorem busy_fetch_clear_reject_witness:
  "task busyManager \<noteq> None \<and>
   snd (fetch appendAll busyManager [] None [404] (Some 2)) =
     Rejected (StreamError ''Cannot fetch: previous operation not complete.'') \<and>
   inserted (fst (fetch appendAll busyManager [] None [404] (Some 2))) = [5 \<mapsto> True] \<and>
   sinkCalls (fst (fetch appendAll busyManager [] None [404] (Some 2))) = [Remove] \<and>
   snd (clear appendAll busyManager) =
     Rejected (StreamError ''Cannot clear: previous operation not complete.'') \<and>
   sinkCalls (fst (clear appendAll busyManager)) = [Remove]"
  using busy_fetch_clear_reject [of busyManager appendAll "[]" None "[404]" "Some 2"]
  by (simp add: busyManager_def)

text \<open>
  Claim C9: a \<open>fetch\<close> made while another task is active rejects, but has already
  stored its stream context: the manager after the call is the manager before it with
  \<open>streamInfo\<close> replaced and nothing else changed, so the rewrite stage of the
  running task reads the rejected call's stream context.
\<close>

theorem busy_fetch_overwrites_streamInfo:
  "task m \<noteq> None \<Longrightarrow>
   fetch run m references initSegment endEarlyOn si =
     (m\<lparr>streamInfo := si\<rparr>,
      Rejected (StreamError ''Cannot fetch: previous operation not complete.'')) \<and>
   rewriteStageContext (fst (fetch run m references initSegment endEarlyOn si)) = si"
  by (simp add: fetch_def Let_def rewriteStageContext_def)

theorem busy_fetch_overwrites_streamInfo_witness:
  "task busyManager \<noteq> None \<and> rewriteStageContext busyManager = Some 1 \<and>
   fetch appendAll busyManager [] None [404] (Some 2) =
     (busyManager\<lparr>streamInfo := Some 2\<rparr>,
      Rejected (StreamError ''Cannot fetch: previous operation not complete.'')) \<and>
   rewriteStageContext (fst (fetch appendAll busyManager [] None [404] (Some 2))) = Some 2"
  using busy_fetch_overwrites_streamInfo [of busyManager appendAll "[]" None "[404]" "Some 2"]
  by (simp add: busyManager_def rewriteStageContext_def)

section \<open>Properties of the byte-array fragment rewriter\<close>

lemma drop4:
  assumes "k + 4 \<le> length xs"
  shows "drop k xs = xs ! k # xs ! (k + 1) # xs ! (k + 2) # xs ! (k + 3) # drop (k + 4) xs"
proof -
  have "drop k xs = xs ! k # drop (Suc k) xs"
    using assms by (simp add: Cons_nth_drop_Suc)
  also have "drop (Suc k) xs = xs ! (k + 1) # drop (Suc (Suc k)) xs"
    using assms by (simp add: Cons_nth_drop_Suc)
  also have "drop (Suc (Suc k)) xs = xs ! (k + 2) # drop (Suc (Suc (Suc k))) xs"
    using assms by (simp add: Cons_nth_drop_Suc)
  also have "drop (Suc (Suc (Suc k))) xs = xs ! (k + 3) # drop (k + 4) xs"
    using assms Cons_nth_drop_Suc [of "k + 3" xs] by (simp add: numeral_eq_Suc)
  finally show ?thesis .
qed

lemma take4: "i + 8 \<le> length xs \<Longrightarrow>
  take 4 (drop (i + 4) xs) = [xs ! (i + 4), xs ! (i + 5), xs ! (i + 6), xs ! (i + 7)]"
  using drop4 [of "i + 4" xs] by (simp add: ac_simps)

lemma tagAt_take:
  assumes "i + 8 \<le> length buffer" "tagAt (map Some buffer) (map Some t) i" "length t = 4"
  shows "take 4 (drop (i + 4) buffer) = t"
proof -
  from assms(3) obtain a b c d where t: "t = [a, b, c, d]"
    by (auto simp: length_Suc_conv numeral_eq_Suc)
  from assms(1,2) show ?thesis unfolding t
    by (simp add: take4 tagAt_def js_get_def nat_add_distrib)
qed

lemma findBox_absent:
  assumes "\<not> tagScanned buffer boxType" "length boxType = 4"
  shows "findBox (map Some buffer) boxType = - 1"
proof -
  have "\<not> tagAt (map Some buffer) (stringToByteArray boxType) i" if "i < length buffer - 8" for i
  proof
    assume h: "tagAt (map Some buffer) (stringToByteArray boxType) i"
    have "stringToByteArray boxType = map Some (tag boxType)"
      by (simp add: stringToByteArray_def tag_def)
    with h that assms(2) have "take 4 (drop (i + 4) buffer) = tag boxType"
      by (intro tagAt_take) (auto simp: tag_def)
    with that assms(1) show False by (auto simp: tagScanned_def list_ex_iff)
  qed
  then have "find (tagAt (map Some buffer) (stringToByteArray boxType)) [0..<length buffer - 8] = None"
    by (simp add: find_None_iff)
  then show ?thesis by (simp add: findBox_def)
qed

text \<open>
  Claim C6, as stated: \<open>mdatSpellingMfhd\<close> consists of a single \<open>mdat\<close> box and so
  contains no \<open>mfhd\<close> box, but its payload spells the type. The scan takes the
  payload for an \<open>mfhd\<close> box of size zero; no \<open>traf\<close> is found, and appending the
  \<open>tfdt\<close> box to \<open>null\<close> throws.
\<close>

theorem convertFragment_spelled_mfhd_counterexample:
  "childTypes mdatSpellingMfhd = Some [tag ''mdat''] \<and>
   fst (convertFragment 0 mdatSpellingMfhd None False) = Inl TypeError"
  by code_simp

text \<open>
  Claim C6, amended: on every input in which the four bytes \<open>mfhd\<close> occur at none of
  the places the scan looks at (the offsets 4 to length - 5), so in particular on every
  input that contains no \<open>mfhd\<close> box and does not spell the type elsewhere, the
  rewriter returns the input unchanged and raises nothing, whatever the metadata.
\<close>

theorem convertFragment_without_mfhd:
  "\<not> tagScanned buffer ''mfhd'' \<Longrightarrow>
   convertFragment currentTime buffer chunkTime isEncrypted = (Inr buffer, currentTime + 1)"
  by (simp add: convertFragment_def getBox_def findBox_absent Let_def)

theorem convertFragment_without_mfhd_witness:
  "\<not> tagScanned noFragment ''mfhd'' \<and>
   convertFragment 3 noFragment (Some 7) True = (Inr noFragment, 4) \<and>
   \<not> tagScanned mfhdAtEnd ''mfhd'' \<and>
   convertFragment 3 mfhdAtEnd (Some 7) False = (Inr mfhdAtEnd, 4)"
  using convertFragment_without_mfhd [of noFragment 3 "Some 7" True]
    convertFragment_without_mfhd [of mfhdAtEnd 3 "Some 7" False]
  by (simp add: tagScanned_def noFragment_def mfhdAtEnd_def tag_def upt_rec)

subsection \<open>Arrays, encodings and the scan for a box\<close>

lemma js_get_js_set:
  "0 \<le> p \<Longrightarrow> js_get (js_set xs p v) i = (if i = p then v else js_get xs i)"
  by (auto simp: js_get_def js_set_def nth_append nth_list_update nat_less_iff
      split: if_splits)

lemma length_js_set:
  "0 \<le> p \<Longrightarrow> length (js_set xs p v) = max (length xs) (nat p + 1)"
  by (auto simp: js_set_def)

lemma js_get_updateInArray:
  "0 \<le> p \<Longrightarrow>
   js_get (updateInArray xs d p) i =
     (if p \<le> i \<and> i < p + int (length d) then d ! nat (i - p) else js_get xs i)"
proof (induction d arbitrary: xs p)
  case Nil
  then show ?case by auto
next
  case (Cons a d)
  have step: "js_get (updateInArray (js_set xs p a) d (p + 1)) i =
     (if p + 1 \<le> i \<and> i < p + 1 + int (length d) then d ! nat (i - (p + 1))
      else js_get (js_set xs p a) i)"
    using Cons.prems by (intro Cons.IH) simp
  have "nat (i - p) = Suc (nat (i - (p + 1)))" if "p + 1 \<le> i"
    using that by simp
  then show ?case
    using Cons.prems by (auto simp: step js_get_js_set)
qed

lemma length_updateInArray:
  "0 \<le> p \<Longrightarrow>
   length (updateInArray xs d p) =
     (if d = [] then length xs else max (length xs) (nat p + length d))"
proof (induction d arbitrary: xs p)
  case Nil
  then show ?case by simp
next
  case (Cons a d)
  then show ?case
    by (auto simp: length_js_set nat_add_distrib)
qed

lemma toUint8Array_nth:
  "k < length xs \<Longrightarrow>
   toUint8Array xs ! k = (case js_get xs (int k) of None \<Rightarrow> 0 | Some b \<Rightarrow> b)"
  by (simp add: toUint8Array_def js_get_def)

lemma take4_nth:
  "k + 4 \<le> length xs \<Longrightarrow> take 4 (drop k xs) = [xs ! k, xs ! (k + 1), xs ! (k + 2), xs ! (k + 3)]"
  using drop4 [of k xs] by simp

lemma byte_mod: "(word_of_int (v mod 256) :: 8 word) = word_of_int v"
  by (simp add: word_of_int_eq_iff take_bit_eq_mod)

lemma shift_byte: "(v - v mod 256) div 256 = v div (256 :: int)"
  by (simp add: minus_mod_eq_mult_div)

lemma numberToBytes_Suc:
  "numberToBytes (Some v) (Suc n) = word_of_int v # numberToBytes (Some (v div 256)) n"
  by (simp add: Let_def byte_mod shift_byte)

lemma div_bytes: "(v::int) div b div 256 = v div (b * 256)"
  by (simp add: zdiv_zmult2_eq)

lemma nat4: "(4::nat) = Suc (Suc (Suc (Suc 0)))"
  by simp

lemma nat8: "(8::nat) = Suc (Suc (Suc (Suc (Suc (Suc (Suc (Suc 0)))))))"
  by simp

lemma intToByteArray_be32: "intToByteArray (Some v) = map Some (be32 v)"
  unfolding intToByteArray_def numberToByteArray_def nat4
  by (simp add: be32_def numberToBytes_Suc div_bytes del: numberToBytes.simps(3))

lemma longToByteArray_be64: "longToByteArray (Some v) = map Some (be64 v)"
  unfolding longToByteArray_def numberToByteArray_def nat8
  by (simp add: be64_def numberToBytes_Suc div_bytes del: numberToBytes.simps(3))

lemma numberToBytes_None: "numberToBytes None n = replicate n 0"
  by (induction n) simp_all

lemma longToByteArray_NaN: "longToByteArray None = map Some (be64 0)"
  unfolding longToByteArray_def numberToByteArray_def nat8
  by (simp add: be64_def)

lemma length_intToByteArray [simp]: "length (intToByteArray v) = 4"
  by (cases v) (simp_all add: intToByteArray_be32 be32_def,
      simp add: intToByteArray_def numberToByteArray_def numberToBytes_None)

lemma findBox_found:
  assumes "findBox xs t \<noteq> - 1"
  obtains i where "findBox xs t = int i" "i < length xs - 8" "tagAt xs (stringToByteArray t) i"
proof -
  from assms obtain i where f: "find (tagAt xs (stringToByteArray t)) [0..<length xs - 8] = Some i"
    by (auto simp: findBox_def split: option.splits)
  then have "i < length xs - 8" "tagAt xs (stringToByteArray t) i"
    by (auto simp: find_Some_iff)
  moreover from f have "findBox xs t = int i" by (simp add: findBox_def)
  ultimately show thesis using that by blast
qed

lemma read4:
  assumes "0 \<le> q" "nat q + 4 \<le> length ys"
  shows "take 4 (drop (nat q) (toUint8Array ys)) =
         map (\<lambda>k. case js_get ys (q + int k) of None \<Rightarrow> 0 | Some b \<Rightarrow> b) [0, 1, 2, 3]"
proof -
  have len: "nat q + 4 \<le> length (toUint8Array ys)"
    using assms by (simp add: toUint8Array_def)
  have "int (nat q + k) = q + int k" for k using assms(1) by simp
  then have "toUint8Array ys ! (nat q + k) =
      (case js_get ys (q + int k) of None \<Rightarrow> 0 | Some b \<Rightarrow> b)" if "k < 4" for k
    using toUint8Array_nth [of "nat q + k" ys] assms(2) that by simp
  from this [of 0] this [of 1] this [of 2] this [of 3] show ?thesis
    by (simp add: take4_nth [OF len])
qed

lemma be32_nth: "length (be32 v) = 4"
  by (simp add: be32_def)

lemma patched_read:
  assumes "0 \<le> p"
  shows "take 4 (drop (nat p) (toUint8Array (updateInArray xs (map Some (be32 v)) p))) = be32 v"
proof -
  let ?ys = "updateInArray xs (map Some (be32 v)) p"
  have len: "nat p + 4 \<le> length ?ys"
    using assms be32_nth [of v] by (auto simp: length_updateInArray)
  have "js_get ?ys (p + int k) = Some (be32 v ! k)" if "k < 4" for k
    using assms that by (simp add: js_get_updateInArray be32_nth)
  from this [of 0] this [of 1] this [of 2] this [of 3] show ?thesis
    by (simp add: read4 [OF assms len]) (simp add: be32_def)
qed

lemma patched_read_other:
  assumes "0 \<le> p" "0 \<le> q" "q + 4 \<le> p \<or> p + int (length d) \<le> q" "nat q + 4 \<le> length xs"
  shows "take 4 (drop (nat q) (toUint8Array (updateInArray xs d p))) =
         take 4 (drop (nat q) (toUint8Array xs))"
proof -
  let ?ys = "updateInArray xs d p"
  have len: "nat q + 4 \<le> length ?ys"
    using assms by (auto simp: length_updateInArray)
  have "js_get ?ys (q + int k) = js_get xs (q + int k)" if "k < 4" for k
    using assms that by (auto simp: js_get_updateInArray)
  from this [of 0] this [of 1] this [of 2] this [of 3] show ?thesis
    by (simp add: read4 [OF assms(2) len] read4 [OF assms(2,4)])
qed

lemma updateBoxSize_long:
  assumes "4 \<le> length xs"
  shows "updateBoxSize xs = intToByteArray (Some (int (length xs))) @ drop 4 xs"
proof -
  from assms obtain a b c d ys where xs: "xs = a # b # c # d # ys"
    by (cases xs; cases "tl xs"; cases "tl (tl xs)"; cases "tl (tl (tl xs))") auto
  show ?thesis
    unfolding updateBoxSize_def Let_def intToByteArray_be32
    by (simp add: xs js_set_def js_get_def be32_def)
qed

lemma tagAt_chars:
  "tagAt xs (stringToByteArray [a, b, c, d]) i \<longleftrightarrow>
     js_get xs (4 + int i) = Some (of_nat (of_char a)) \<and>
     js_get xs (5 + int i) = Some (of_nat (of_char b)) \<and>
     js_get xs (6 + int i) = Some (of_nat (of_char c)) \<and>
     js_get xs (7 + int i) = Some (of_nat (of_char d))"
  by (simp add: tagAt_def stringToByteArray_def js_get_def add.commute)

lemma js_get_append_left:
  "0 \<le> i \<Longrightarrow> i < int (length xs) \<Longrightarrow> js_get (xs @ ys) i = js_get xs i"
  by (auto simp: js_get_def nth_append nat_less_iff)

lemma js_get_append_right:
  "int (length xs) \<le> i \<Longrightarrow> js_get (xs @ ys) i = js_get ys (i - int (length xs))"
  by (auto simp: js_get_def nth_append nat_diff_distrib)

lemma assembleFragment_moof:
  assumes "assembleFragment buf mfhd ct enc = Inr result"
  obtains n rest where "result = intToByteArray (Some n) @ stringToByteArray ''moof'' @ rest"
proof -
  from assms obtain traf1 mdat2 where
    "result = updateBoxSize (intToByteArray (Some 0) @ stringToByteArray ''moof'' @ mfhd @ traf1)
               @ mdat2"
    by (auto simp: assembleFragment_def Let_def appendToArray_def
        split: sum.splits option.splits prod.splits)
  then have "result = intToByteArray (Some (int (length (intToByteArray (Some 0) @
       stringToByteArray ''moof'' @ mfhd @ traf1)))) @ stringToByteArray ''moof'' @ (mfhd @ traf1 @ mdat2)"
    by (simp add: updateBoxSize_long)
  then show thesis using that by blast
qed

lemma longToByteArray_bytes: "longToByteArray v = map Some (be64 (numberOrZero v))"
  by (cases v) (simp_all add: longToByteArray_be64 longToByteArray_NaN numberOrZero_def)

lemma length_be64 [simp]: "length (be64 v) = 8"
  by (simp add: be64_def)

lemma length_be32 [simp]: "length (be32 v) = 4"
  by (simp add: be32_def)

lemma stringToByteArray_tag: "stringToByteArray s = map Some (tag s)"
  by (simp add: stringToByteArray_def tag_def)

lemma createTfdtBox_bytes: "createTfdtBox v = map Some (tfdtBytes (numberOrZero v))"
  unfolding createTfdtBox_def
  by (simp add: updateBoxSize_long longToByteArray_bytes intToByteArray_be32
      stringToByteArray_tag tfdtBytes_def) (simp add: be32_def tag_def)

lemma length_tfdtBytes [simp]: "length (tfdtBytes t) = 20"
  by (simp add: tfdtBytes_def tag_def)

lemma toUint8Array_Some [simp]: "toUint8Array (map Some xs) = xs"
  by (simp add: toUint8Array_def comp_def)

lemma take_drop_updateInArray:
  assumes "0 \<le> p" "q + n \<le> length xs" "int q + int n \<le> p \<or> p + int (length d) \<le> int q"
  shows "take n (drop q (updateInArray xs d p)) = take n (drop q xs)"
proof (rule nth_equalityI)
  have len: "length xs \<le> length (updateInArray xs d p)"
    using assms(1) by (simp add: length_updateInArray)
  with assms(2) show "length (take n (drop q (updateInArray xs d p))) = length (take n (drop q xs))"
    by simp
  fix i assume "i < length (take n (drop q (updateInArray xs d p)))"
  then have i: "i < n" by simp
  with assms(2) len have "q + i < length xs" "q + i < length (updateInArray xs d p)" by simp_all
  then have "updateInArray xs d p ! (q + i) = js_get (updateInArray xs d p) (int (q + i))"
    "xs ! (q + i) = js_get xs (int (q + i))"
    by (simp_all add: js_get_def nat_add_distrib)
  moreover have "js_get (updateInArray xs d p) (int (q + i)) = js_get xs (int (q + i))"
    using assms(1,3) i by (auto simp: js_get_updateInArray)
  ultimately show "take n (drop q (updateInArray xs d p)) ! i = take n (drop q xs) ! i"
    using i assms(2) len by simp
qed

lemma toUint8Array_append: "toUint8Array (xs @ ys) = toUint8Array xs @ toUint8Array ys"
  by (simp add: toUint8Array_def)

lemma getBox_tag:
  assumes "getBox buf [a, b, c, d] = Some box" "8 \<le> length box"
  shows "take 4 (drop 4 box) = stringToByteArray [a, b, c, d]"
proof -
  from assms(1) have found: "findBox buf [a, b, c, d] \<noteq> - 1"
    by (auto simp: getBox_def Let_def split: if_splits)
  then obtain i where i: "findBox buf [a, b, c, d] = int i"
    and T: "tagAt buf (stringToByteArray [a, b, c, d]) i"
    by (rule findBox_found)
  from assms(1) i obtain e where
    box: "box = getArraySegment buf (int i) e"
    by (auto simp: getBox_def Let_def split: if_splits)
  with assms(2) obtain n where e: "e = Some n" by (cases e) (auto simp: getArraySegment_def)
  have nth: "box ! k = js_get buf (int i + int k)" if "k < length box" for k
    using that unfolding box e by (simp add: getArraySegment_def)
  have "take 4 (drop 4 box) = [box ! 4, box ! 5, box ! 6, box ! 7]"
    using take4 [of 0 box] assms(2) by simp
  also have "\<dots> = stringToByteArray [a, b, c, d]"
    using T [unfolded tagAt_chars] assms(2) nth [of 4] nth [of 5] nth [of 6] nth [of 7]
    by (simp add: stringToByteArray_def add.commute)
  finally show ?thesis .
qed

subsection \<open>The rewriter evaluated on the two fragments\<close>

lemma plain_eval_1:
  "convertFragment 1 plainFragment (Some 5) False =
     (Inr ([0, 0, 0, 88] @ tag ''moof'' @
             [0, 0, 0, 16] @ tag ''mfhd'' @ [0, 0, 0, 0, 0, 0, 0, 1] @
             [0, 0, 0, 64] @ tag ''traf'' @
               [0, 0, 0, 16] @ tag ''tfhd'' @ [0, 0, 0, 0, 0, 0, 0, 1] @
               [0, 0, 0, 20] @ tag ''trun'' @ [0, 0, 0, 1, 0, 0, 0, 1, 0, 0, 0, 96] @
               [0, 0, 0, 20] @ tag ''tfdt'' @ [1, 0, 0, 0, 0, 0, 0, 0, 1, 49, 123, 32] @
           [0, 0, 0, 12] @ tag ''mdat'' @ [1, 2, 3, 4]), 2)"
  by code_simp

lemma plain_eval_2:
  "convertFragment 2 plainFragment (Some 5) False =
     (Inr ([0, 0, 0, 88] @ tag ''moof'' @
             [0, 0, 0, 16] @ tag ''mfhd'' @ [0, 0, 0, 0, 0, 0, 0, 1] @
             [0, 0, 0, 64] @ tag ''traf'' @
               [0, 0, 0, 16] @ tag ''tfhd'' @ [0, 0, 0, 0, 0, 0, 0, 1] @
               [0, 0, 0, 20] @ tag ''trun'' @ [0, 0, 0, 1, 0, 0, 0, 1, 0, 0, 0, 96] @
               [0, 0, 0, 20] @ tag ''tfdt'' @ [1, 0, 0, 0, 0, 0, 0, 0, 2, 98, 246, 64] @
           [0, 0, 0, 12] @ tag ''mdat'' @ [1, 2, 3, 4]), 3)"
  by code_simp

lemma plain_boxes:
  "getBox (map Some plainFragment) ''mfhd'' = Some (mfhdOf plainFragment)"
  "getBox (map Some plainFragment) ''traf'' = Some (trafOf plainFragment)"
  "assembleFragment (map Some plainFragment) (mfhdOf plainFragment) (timesAt 1) False =
     Inr (resultOf 1 plainFragment False)"
  "length (mfhdOf plainFragment) = 16"
  "length (trafOf plainFragment) = 44"
  "findBox (resultOf 1 plainFragment False) ''trun'' = 48"
  by code_simp+

lemma enc_boxes:
  "getBox (map Some encFragment) ''mfhd'' = Some (mfhdOf encFragment)"
  "assembleFragment (map Some encFragment) (mfhdOf encFragment) (timesAt 2) True =
     Inr (resultOf 2 encFragment True)"
  by code_simp+

lemma enc_positions:
  "findBox (resultOf 2 encFragment True) ''moof'' = 0"
  "findBox (resultOf 2 encFragment True) ''trun'' = 48"
  "findBox (resultOf 2 encFragment True) ''mdat'' = 157"
  "findBox (patchTrun (resultOf 2 encFragment True)) ''saio'' = 85"
  "findBox (patchTrun (resultOf 2 encFragment True)) ''senc'' = 125"
  by code_simp+

subsection \<open>The claims on the rewritten fragment\<close>

text \<open>
  Claim C1 holds of the design and fails on \<open>uux.convertFragment\<close>: its first statement
  replaces the timestamp it is given by \<open>uux.times[uux.currentTime++]\<close>. The
  unencrypted fragment \<open>plainFragment\<close> is rewritten with the base timestamp \<open>5\<close>
  supplied and the counter at \<open>1\<close>; the \<open>tfdt\<close> box of the output, the twenty
  bytes at offset 68, carries the time \<open>20020000\<close> of the table, not \<open>5\<close>.
\<close>

theorem tfdt_ignores_supplied_time:
  "take 20 (drop 68 (projr (fst (convertFragment 1 plainFragment (Some 5) False)))) =
     tfdtBytes 20020000 \<and>
   tfdtBytes 20020000 \<noteq> tfdtBytes 5"
  by (simp add: plain_eval_1 tfdtBytes_def be64_def tag_def)

text \<open>
  Claim C2 holds of the design and fails on \<open>uux.convertFragment\<close>, by the same
  statement as for claim C1: the module variable \<open>uux.currentTime\<close> is read and
  written on every call. Two calls in a row with the same input bytes and the same
  metadata, the first with the counter at \<open>1\<close>, return different bytes, and the first
  call has changed the counter.
\<close>

theorem convertFragment_second_call_differs:
  "fst (convertFragment 1 plainFragment (Some 5) False) \<noteq>
   fst (convertFragment (snd (convertFragment 1 plainFragment (Some 5) False))
          plainFragment (Some 5) False) \<and>
   snd (convertFragment 1 plainFragment (Some 5) False) \<noteq> 1"
  by (simp add: plain_eval_1 plain_eval_2)

subsection \<open>The boxes of the reassembled traf\<close>

lemma unat_byte: "unat (word_of_int x :: 8 word) = nat (x mod 256)"
  by (simp add: unat_eq_nat_uint uint_word_of_int_eq take_bit_eq_mod)

lemma uint_byte_nat: "uint (word_of_nat n :: 8 word) = int n mod 256"
  using uint_word_of_int_eq [of "int n", where 'a = 8] by (simp add: take_bit_eq_mod)

lemma bytes_recompose:
  fixes n :: int
  assumes "0 \<le> n" "n < 4294967296"
  shows "((n div 16777216 mod 256 * 256 + n div 65536 mod 256) * 256 + n div 256 mod 256) * 256
        + n mod 256 = n"
proof -
  define a where "a = n div 256"
  define b where "b = a div 256"
  define c where "c = b div 256"
  have b: "n div 65536 = b"
    using zdiv_zmult2_eq [of 256 n 256] by (simp add: a_def b_def)
  have c: "n div 16777216 = c"
    using zdiv_zmult2_eq [of 256 n 65536] b by (simp add: c_def)
  have "c < 256" using assms c by simp
  moreover have "0 \<le> c" using assms c by simp
  ultimately have cm: "c mod 256 = c" by simp
  have "n = a * 256 + n mod 256" by (simp add: a_def)
  moreover have "a = b * 256 + a mod 256" by (simp add: b_def)
  moreover have "b = c * 256 + b mod 256" by (simp add: c_def)
  ultimately have "((c * 256 + b mod 256) * 256 + a mod 256) * 256 + n mod 256 = n"
    by simp
  then show ?thesis by (simp add: b c cm a_def [symmetric])
qed

lemma be32_decode_be32:
  assumes "n < 4294967296"
  shows "be32_decode (be32 (int n) @ rest) = n"
proof -
  let ?n = "int n"
  have "int (be32_decode (be32 ?n @ rest)) =
      ((?n div 16777216 mod 256 * 256 + ?n div 65536 mod 256) * 256 + ?n div 256 mod 256) * 256
        + ?n mod 256"
    unfolding be32_decode_def be32_def by (simp add: unat_byte uint_byte_nat)
  also have "\<dots> = ?n"
    using assms by (intro bytes_recompose) simp_all
  finally show ?thesis by simp
qed

lemma childTypes_wfBox:
  assumes "wfBox t b"
  shows "childTypes (toUint8Array (b @ rest)) =
         map_option ((#) (tag t)) (childTypes (toUint8Array rest))"
proof -
  from assms have len: "8 \<le> length b" "length b < 4294967296"
    and hd: "take 8 b = map Some (be32 (int (length b)) @ tag t)"
    by (simp_all add: wfBox_def)
  have b: "b = map Some (be32 (int (length b)) @ tag t) @ drop 8 b"
    using hd append_take_drop_id [of 8 b] by simp
  then have u: "toUint8Array (b @ rest) =
      be32 (int (length b)) @ tag t @ toUint8Array (drop 8 b) @ toUint8Array rest"
    by (metis append_assoc toUint8Array_Some toUint8Array_append)
  have lt: "length (tag t) = 4"
    using arg_cong [OF hd, of length] len by (simp add: tag_def)
  have dec: "be32_decode (toUint8Array (b @ rest)) = length b"
    unfolding u using len by (simp add: be32_decode_be32)
  have l: "length (toUint8Array (b @ rest)) = length b + length rest"
    by (simp add: toUint8Array_def)
  have dr: "drop (length b) (toUint8Array (b @ rest)) = toUint8Array rest"
    by (simp add: toUint8Array_def drop_map)
  have tg: "take 4 (drop 4 (toUint8Array (b @ rest))) = tag t"
    unfolding u using lt by simp
  have ne: "toUint8Array (b @ rest) \<noteq> []"
    using len by (auto simp: toUint8Array_def)
  show ?thesis
    using len ne
    by (subst childTypes.simps) (simp add: dec l dr tg Let_def split: option.splits)
qed

lemma uint_byte_bound: "uint (w :: 8 word) < 256"
  using uint_bounded [of w] by simp

lemma word_of_int_low: "(word_of_int (x * 256 + uint w) :: 8 word) = w"
proof -
  have "(x * 256 + uint w) mod 256 = uint w"
    using uint_byte_bound [of w] by simp
  then have "(word_of_int (x * 256 + uint w) :: 8 word) = word_of_int (uint w)"
    using byte_mod [of "x * 256 + uint w"] by simp
  then show ?thesis by simp
qed

lemma shift_low:
  fixes x :: int
  shows "(x * 256 + uint (w :: 8 word)) div 256 = x"
  using uint_byte_bound [of w] by simp

lemma be32_compose:
  fixes w0 w1 w2 w3 :: "8 word"
  defines "n \<equiv> ((uint w0 * 256 + uint w1) * 256 + uint w2) * 256 + uint w3"
  shows "be32 n = [w0, w1, w2, w3]" and "0 \<le> n" and "n < 4294967296"
proof -
  have d1: "n div 256 = (uint w0 * 256 + uint w1) * 256 + uint w2"
    unfolding n_def by (rule shift_low)
  have d2: "n div 65536 = uint w0 * 256 + uint w1"
    using div_bytes [of n 256] d1 shift_low [of "uint w0 * 256 + uint w1" w2] by simp
  have d3: "n div 16777216 = uint w0"
    using div_bytes [of n 65536] d2 shift_low [of "uint w0" w1] by simp
  have "word_of_int n = w3" unfolding n_def by (rule word_of_int_low)
  moreover have "word_of_int (n div 256) = w2" unfolding d1 by (rule word_of_int_low)
  moreover have "word_of_int (n div 65536) = w1" unfolding d2 by (rule word_of_int_low)
  moreover have "word_of_int (n div 16777216) = w0" unfolding d3 by simp
  ultimately show "be32 n = [w0, w1, w2, w3]" by (simp add: be32_def)
  show "0 \<le> n" unfolding n_def by simp
  show "n < 4294967296"
    unfolding n_def
    using uint_byte_bound [of w0] uint_byte_bound [of w1] uint_byte_bound [of w2]
      uint_byte_bound [of w3] by simp
qed

lemma byteArrayToInt_Some:
  assumes "i + 4 \<le> length buffer"
  shows "byteArrayToInt (map Some buffer) (int i) =
         Some (((uint (buffer ! i) * 256 + uint (buffer ! (i + 1))) * 256 +
                 uint (buffer ! (i + 2))) * 256 + uint (buffer ! (i + 3)))"
  using assms by (simp add: byteArrayToInt_def js_get_def nat_add_distrib)

lemma getBox_wfBox:
  assumes box: "getBox (map Some buffer) [a, b, c, d] = Some box" and len: "8 \<le> length box"
  shows "wfBox [a, b, c, d] box"
proof -
  let ?buf = "map Some buffer"
  from box have found: "findBox ?buf [a, b, c, d] \<noteq> - 1"
    by (auto simp: getBox_def Let_def split: if_splits)
  then obtain i where i: "findBox ?buf [a, b, c, d] = int i" and il: "i < length ?buf - 8"
    by (rule findBox_found)
  then have i4: "i + 4 \<le> length buffer" by simp
  define n where "n = ((uint (buffer ! i) * 256 + uint (buffer ! (i + 1))) * 256 +
                 uint (buffer ! (i + 2))) * 256 + uint (buffer ! (i + 3))"
  have n: "be32 n = [buffer ! i, buffer ! (i + 1), buffer ! (i + 2), buffer ! (i + 3)]"
    "0 \<le> n" "n < 4294967296"
    unfolding n_def by (rule be32_compose)+
  have bx: "box = map (\<lambda>k. js_get ?buf (int i + int k)) [0..<nat n]"
    using box i byteArrayToInt_Some [OF i4]
    by (simp add: getBox_def Let_def getArraySegment_def n_def)
  then have lb: "length box = nat n" by simp
  have nth: "box ! k = Some (buffer ! (i + k))" if "k < 4" for k
    using that len lb i4 unfolding bx by (simp add: js_get_def nat_add_distrib)
  have "take 4 box = [box ! 0, box ! 1, box ! 2, box ! 3]"
    using take4_nth [of 0 box] len by (simp add: numeral_2_eq_2)
  also have "\<dots> = map Some (be32 (int (length box)))"
    using nth [of 0] nth [of 1] nth [of 2] nth [of 3] n lb by simp
  finally have t4: "take 4 box = map Some (be32 (int (length box)))" .
  have t8: "take 4 (drop 4 box) = map Some (tag [a, b, c, d])"
    using getBox_tag [OF box len] by (simp add: stringToByteArray_tag)
  have "take 8 box = take 4 box @ take 4 (drop 4 box)"
    using take_add [of 4 4 box] by simp
  with t4 t8 have "take 8 box = map Some (be32 (int (length box)) @ tag [a, b, c, d])"
    by simp
  with len lb n show ?thesis by (simp add: wfBox_def)
qed

lemma js_set_inside:
  assumes "0 \<le> k" "nat k < length b"
  shows "js_set (a @ b @ c) (int (length a) + k) x = a @ js_set b k x @ c"
proof -
  have "k < int (length b)" using assms by linarith
  with assms show ?thesis
    by (simp add: js_set_def nat_add_distrib list_update_append)
qed

lemma length_js_set_inside:
  "0 \<le> k \<Longrightarrow> nat k < length b \<Longrightarrow> length (js_set b k x) = length b"
  by (simp add: js_set_def)

lemma updateInArray_inside:
  assumes "0 \<le> k" "nat k + length d \<le> length b"
  shows "updateInArray (a @ b @ c) d (int (length a) + k) = a @ updateInArray b d k @ c \<and>
         length (updateInArray b d k) = length b"
  using assms
proof (induction d arbitrary: b k)
  case Nil
  then show ?case by simp
next
  case (Cons x d)
  have k: "nat k < length b" using Cons.prems by simp
  have "nat (k + 1) + length d \<le> length (js_set b k x)"
    using Cons.prems by (simp add: length_js_set_inside nat_add_distrib)
  with Cons.IH [of "k + 1" "js_set b k x"] Cons.prems(1) k show ?case
    by (simp add: js_set_inside length_js_set_inside add.assoc)
qed

lemma take_updateInArray:
  assumes "0 \<le> k" "nat k + length d \<le> length b" "m \<le> nat k"
  shows "take m (updateInArray b d k) = take m b"
proof -
  have "int m \<le> k" "m \<le> length b" using assms by linarith+
  with take_drop_updateInArray [of k 0 m b d] assms(1) show ?thesis by simp
qed

lemma wfBox_updateInArray:
  assumes "wfBox t b" "8 \<le> k" "nat k + length d \<le> length b"
  shows "wfBox t (updateInArray b d k)"
proof -
  have "take 8 (updateInArray b d k) = take 8 b"
    using assms by (intro take_updateInArray) simp_all
  moreover have "length (updateInArray b d k) = length b"
    using updateInArray_inside [of k d b "[]" "[]"] assms by simp
  ultimately show ?thesis using assms(1) by (simp add: wfBox_def)
qed

lemma wfBox_js_set:
  assumes "wfBox t b" "8 \<le> k" "nat k < length b"
  shows "wfBox t (js_set b k x)"
  using wfBox_updateInArray [OF assms(1,2), of "[x]"] assms(3) by simp

lemma length_stringToByteArray [simp]: "length (stringToByteArray s) = length s"
  by (simp add: stringToByteArray_def)

lemma length_updateBoxSize: "4 \<le> length xs \<Longrightarrow> length (updateBoxSize xs) = length xs"
  by (simp add: updateBoxSize_long)

lemma length_tag [simp]: "length (tag s) = length s"
  by (simp add: tag_def)

lemma wfBox_updateBoxSize:
  assumes "8 + length xs < 4294967296" "length t = 4"
  shows "wfBox t (updateBoxSize (intToByteArray v @ stringToByteArray t @ xs))"
    and "length (updateBoxSize (intToByteArray v @ stringToByteArray t @ xs)) = 8 + length xs"
proof -
  let ?b = "intToByteArray v @ stringToByteArray t @ xs"
  have l: "length ?b = 8 + length xs" using assms(2) by simp
  have u: "updateBoxSize ?b =
      map Some (be32 (int (8 + length xs))) @ map Some (tag t) @ xs"
    using assms(2) by (simp add: updateBoxSize_long intToByteArray_be32 stringToByteArray_tag)
  show "length (updateBoxSize ?b) = 8 + length xs"
    unfolding u using assms(2) by simp
  show "wfBox t (updateBoxSize ?b)"
    unfolding u wfBox_def using assms by simp
qed

lemma wfBox_saiz: "wfBox ''saiz'' (createSaizBox v)" "length (createSaizBox v) = 17"
  unfolding createSaizBox_def
  using wfBox_updateBoxSize [of "[Some 0] @ intToByteArray (Some 16) @ intToByteArray v" "''saiz''"]
  by simp_all

lemma wfBox_saio: "wfBox ''saio'' createSaioBox" "length createSaioBox = 20"
  unfolding createSaioBox_def
  using wfBox_updateBoxSize [of "intToByteArray (Some 0) @ intToByteArray (Some 1) @
      intToByteArray (Some 0)" "''saio''"]
  by simp_all

lemma wfBox_tfdt: "wfBox ''tfdt'' (createTfdtBox v)" "length (createTfdtBox v) = 20"
  by (simp_all add: createTfdtBox_bytes wfBox_def tfdtBytes_def be32_def)

lemma getBox_length:
  assumes "getBox (map Some buffer) t = Some box"
  shows "length box < 4294967296"
proof -
  let ?buf = "map Some buffer"
  from assms have "findBox ?buf t \<noteq> - 1"
    by (auto simp: getBox_def Let_def split: if_splits)
  then obtain i where i: "findBox ?buf t = int i" and il: "i < length ?buf - 8"
    by (rule findBox_found)
  then have i4: "i + 4 \<le> length buffer" by simp
  define n where "n = ((uint (buffer ! i) * 256 + uint (buffer ! (i + 1))) * 256 +
                 uint (buffer ! (i + 2))) * 256 + uint (buffer ! (i + 3))"
  have n: "0 \<le> n" "n < 4294967296"
    unfolding n_def by (rule be32_compose)+
  have "box = map (\<lambda>k. js_get ?buf (int i + int k)) [0..<nat n]"
    using assms i byteArrayToInt_Some [OF i4]
    by (simp add: getBox_def Let_def getArraySegment_def n_def)
  then have "length box = nat n" by simp
  with n show ?thesis by simp
qed

lemma wfBox_senc:
  assumes "16 + length iv < 4294967296"
  shows "wfBox ''senc'' (sencBlock c iv)" "length (sencBlock c iv) = 16 + length iv"
  unfolding sencBlock_def
  using wfBox_updateBoxSize [of "intToByteArray (Some 2) @ intToByteArray c @ iv" "''senc''"] assms
  by simp_all

lemma length_ivData:
  "length (getArraySegment uuid 32 (Some (int (length uuid)))) = length uuid - 32"
  by (simp add: getArraySegment_def)

lemma encryptedTraf_eq:
  "encryptedTraf tfhd trun uuid ct =
     intToByteArray (Some (int (length tfhd + length trun + 81 + (length uuid - 32)))) @
     stringToByteArray ''traf'' @ tfhd @ trun @ createSaizBox (byteArrayToInt trun 12) @
     createSaioBox @ createTfdtBox ct @
     sencBlock (byteArrayToInt trun 12) (getArraySegment uuid 32 (Some (int (length uuid))))"
proof -
  have "length (sencBlock c (getArraySegment uuid 32 (Some (int (length uuid))))) =
      16 + (length uuid - 32)" for c
    by (simp add: sencBlock_def length_updateBoxSize length_ivData)
  then show ?thesis
    by (simp add: encryptedTraf_def Let_def appendToArray_def updateBoxSize_long
        wfBox_saiz wfBox_saio wfBox_tfdt add.assoc) (simp add: algebra_simps)
qed

lemma assembleFragment_encrypted:
  assumes "assembleFragment buf mfhd ct True = Inr result"
    and "getBox buf ''tfhd'' = Some tfhd" "getBox buf ''trun'' = Some trun"
    and "getBox buf ''uuid'' = Some uuid"
  obtains n mdat2 where
    "result = intToByteArray (Some n) @ stringToByteArray ''moof'' @ mfhd @
       js_set (encryptedTraf tfhd trun uuid ct)
         (findBox (encryptedTraf tfhd trun uuid ct) ''tfhd'' + 9) (Some 2) @ mdat2"
proof -
  from assms obtain mdat2 where
    "result = updateBoxSize (intToByteArray (Some 0) @ stringToByteArray ''moof'' @ mfhd @
       js_set (encryptedTraf tfhd trun uuid ct)
         (findBox (encryptedTraf tfhd trun uuid ct) ''tfhd'' + 9) (Some 2)) @ mdat2"
    by (auto simp: assembleFragment_def rewriteEncrypted_def Let_def appendToArray_def
        split: option.splits)
  then show thesis
    using that by (simp add: updateBoxSize_long)
qed

lemma childTypes_Nil: "childTypes [] = Some []"
  by (simp add: childTypes.simps)

lemma toUint8Array_Nil [simp]: "toUint8Array [] = []"
  by (simp add: toUint8Array_def)

lemma length_toUint8Array [simp]: "length (toUint8Array xs) = length xs"
  by (simp add: toUint8Array_def)

lemma short_eval:
  "convertFragment 2 shortTrunFragment None True =
     (Inr ([0, 0, 0, 153] @ tag ''moof'' @
             [0, 0, 0, 16] @ tag ''mfhd'' @ [0, 0, 0, 0, 0, 0, 0, 1] @
             [0, 0, 0, 129] @ tag ''traf'' @
               [0, 0, 0, 16] @ tag ''tfhd'' @ [0, 2, 0, 0, 0, 0, 0, 1] @
               [0, 0, 0, 16] @ tag ''trun'' @ [0, 0, 0, 0, 0, 0, 0, 1] @
               [0, 0, 0, 161] @ tag ''saiz'' @ [0, 0, 0, 0, 16, 0, 0, 0, 1] @
               [0, 0, 0, 20] @ tag ''saio'' @ [0, 0, 0, 0, 0, 0, 0, 1, 0, 0, 0, 137] @
               [0, 0, 0, 20] @ tag ''tfdt'' @ [1, 0, 0, 0, 0, 0, 0, 0, 2, 98, 246, 64] @
               [0, 0, 0, 32] @ tag ''senc'' @ [0, 0, 0, 2, 0, 0, 0, 1] @
                 [1, 2, 3, 4, 5, 6, 7, 8, 9, 10, 11, 12, 13, 14, 15, 16] @
           [0, 0, 0, 12] @ tag ''mdat'' @ [1, 2, 3, 4]), 3)"
  by code_simp

lemma enc_boxes_traf:
  "getBox (map Some encFragment) ''tfhd'' = Some (boxOf encFragment ''tfhd'')"
  "getBox (map Some encFragment) ''trun'' = Some (boxOf encFragment ''trun'')"
  "getBox (map Some encFragment) ''uuid'' = Some (boxOf encFragment ''uuid'')"
  "length (mfhdOf encFragment) = 16"
  "length (boxOf encFragment ''tfhd'') = 16"
  "length (boxOf encFragment ''trun'') = 20"
  "length (boxOf encFragment ''uuid'') = 48"
  "findBox (encryptedTraf (boxOf encFragment ''tfhd'') (boxOf encFragment ''trun'')
     (boxOf encFragment ''uuid'') (timesAt 2)) ''tfhd'' = 8"
  by code_simp+

text \<open>
  Claim C5, as stated: \<open>shortTrunFragment\<close> is an encrypted fragment whose \<open>trun\<close>
  box is sixteen bytes long. The data offset is written sixteen bytes after the start of
  \<open>trun\<close> all the same, over the size of the \<open>saiz\<close> box that follows: the 121
  bytes after the header of the output's \<open>traf\<close> are not a sequence of boxes.
\<close>

theorem encrypted_traf_short_trun_counterexample:
  "take 8 (drop 24 (projr (fst (convertFragment 2 shortTrunFragment None True)))) =
     be32 129 @ tag ''traf'' \<and>
   childTypes (take 121 (drop 32 (projr (fst (convertFragment 2 shortTrunFragment None True))))) =
     None"
  unfolding short_eval by code_simp

text \<open>
  Claim C5, amended: for every encrypted fragment rewrite in which \<open>tfhd\<close> is at
  least 10 and \<open>trun\<close> at least 20 bytes long (it has a data-offset field) and the
  scans of the rewriter find \<open>tfhd\<close>, \<open>trun\<close> and \<open>saio\<close> at the start of these
  boxes, the output holds after \<open>mfhd\<close> a \<open>traf\<close> box whose content consists of the
  child boxes \<open>tfhd\<close>, \<open>trun\<close>, \<open>saiz\<close>, \<open>saio\<close>, \<open>tfdt\<close>, \<open>senc\<close> exactly in
  that order: one of each, and no \<open>sepiff\<close>, \<open>uuid\<close>, \<open>tfxd\<close> or \<open>sdtp\<close>.
\<close>

theorem encrypted_traf_children:
  assumes mfhd: "getBox (map Some buffer) ''mfhd'' = Some mfhd"
    and tfhd: "getBox (map Some buffer) ''tfhd'' = Some tfhd"
    and trun: "getBox (map Some buffer) ''trun'' = Some trun"
    and uuid: "getBox (map Some buffer) ''uuid'' = Some uuid"
    and asm: "assembleFragment (map Some buffer) mfhd (timesAt currentTime) True = Inr result"
    and sz1: "10 \<le> length tfhd" and sz2: "20 \<le> length trun"
    and p1: "findBox (encryptedTraf tfhd trun uuid (timesAt currentTime)) ''tfhd'' = 8"
    and p2: "findBox result ''trun'' = int (16 + length mfhd + length tfhd)"
    and p3: "findBox (patchTrun result) ''saio'' =
               int (16 + length mfhd + length tfhd + length trun + 17)"
  shows "\<exists>out. fst (convertFragment currentTime buffer chunkTime True) = Inr out \<and>
           take 8 (drop (8 + length mfhd) out) =
             be32 (int (length tfhd + length trun + 81 + (length uuid - 32))) @ tag ''traf'' \<and>
           childTypes (take (length tfhd + length trun + 73 + (length uuid - 32))
                         (drop (16 + length mfhd) out)) =
             Some (map tag [''tfhd'', ''trun'', ''saiz'', ''saio'', ''tfdt'', ''senc''])"
proof -
  define ct where "ct = timesAt currentTime"
  define iv where "iv = getArraySegment uuid 32 (Some (int (length uuid)))"
  define saiz where "saiz = createSaizBox (byteArrayToInt trun 12)"
  define saio where "saio = createSaioBox"
  define tfdt where "tfdt = createTfdtBox ct"
  define senc where "senc = sencBlock (byteArrayToInt trun 12) iv"
  define hdr where "hdr =
    intToByteArray (Some (int (length tfhd + length trun + 81 + (length uuid - 32)))) @
    stringToByteArray ''traf''"
  define tfhd' where "tfhd' = js_set tfhd 9 (Some 2)"
  have lhdr: "length hdr = 8" by (simp add: hdr_def)
  have liv: "length iv = length uuid - 32" by (simp add: iv_def length_ivData)
  have "length uuid < 4294967296" using uuid by (rule getBox_length)
  then have ivb: "16 + length iv < 4294967296" by (simp add: liv)
  have ls: "length saiz = 17" "length saio = 20" "length tfdt = 20" "length senc = 16 + length iv"
    using wfBox_senc(2) [OF ivb]
    by (simp_all add: saiz_def saio_def tfdt_def senc_def wfBox_saiz wfBox_saio wfBox_tfdt)
  \<comment> \<open>the reassembled traf and the flags of tfhd\<close>
  have E: "encryptedTraf tfhd trun uuid ct = hdr @ tfhd @ (trun @ saiz @ saio @ tfdt @ senc)"
    by (simp add: encryptedTraf_eq hdr_def saiz_def saio_def tfdt_def senc_def iv_def)
  have "js_set (hdr @ tfhd @ (trun @ saiz @ saio @ tfdt @ senc)) (int (length hdr) + 9) (Some 2) =
      hdr @ js_set tfhd 9 (Some 2) @ (trun @ saiz @ saio @ tfdt @ senc)"
    using sz1 by (intro js_set_inside) simp_all
  then have E': "js_set (encryptedTraf tfhd trun uuid ct)
      (findBox (encryptedTraf tfhd trun uuid ct) ''tfhd'' + 9) (Some 2) =
      hdr @ tfhd' @ trun @ saiz @ saio @ tfdt @ senc"
    using p1 [folded ct_def] by (simp add: E lhdr tfhd'_def)
  have ltf: "length tfhd' = length tfhd"
    using sz1 by (simp add: tfhd'_def length_js_set_inside)
  \<comment> \<open>the assembled fragment\<close>
  from asm tfhd trun uuid obtain n mdat2 where
    R: "result = intToByteArray (Some n) @ stringToByteArray ''moof'' @ mfhd @
       js_set (encryptedTraf tfhd trun uuid ct)
         (findBox (encryptedTraf tfhd trun uuid ct) ''tfhd'' + 9) (Some 2) @ mdat2"
    unfolding ct_def by (rule assembleFragment_encrypted)
  define P0 where "P0 = intToByteArray (Some n) @ stringToByteArray ''moof'' @ mfhd"
  define P1 where "P1 = P0 @ hdr @ tfhd'"
  have lP0: "length P0 = 8 + length mfhd" by (simp add: P0_def)
  have lP1: "length P1 = 16 + length mfhd + length tfhd" by (simp add: P1_def lP0 lhdr ltf)
  have R1: "result = P1 @ trun @ (saiz @ saio @ tfdt @ senc @ mdat2)"
    by (simp add: R E' P1_def P0_def)
  \<comment> \<open>the data offset of trun\<close>
  define d where "d = intToByteArray (Some (findBox result ''mdat'' + 8 - findBox result ''moof''))"
  define trun' where "trun' = updateInArray trun d 16"
  have pt: "updateInArray (P1 @ trun @ (saiz @ saio @ tfdt @ senc @ mdat2)) d (int (length P1) + 16) =
      P1 @ updateInArray trun d 16 @ (saiz @ saio @ tfdt @ senc @ mdat2) \<and>
      length (updateInArray trun d 16) = length trun"
    using sz2 by (intro updateInArray_inside) (simp_all add: d_def)
  then have ltr: "length trun' = length trun" by (simp add: trun'_def)
  have PT: "patchTrun result = P1 @ trun' @ saiz @ saio @ tfdt @ senc @ mdat2"
    using pt p2 by (simp add: patchTrun_def Let_def d_def [symmetric] R1 [symmetric] lP1 trun'_def)
  \<comment> \<open>the offset of saio\<close>
  define P2 where "P2 = P1 @ trun' @ saiz"
  define d2 where "d2 = intToByteArray
    (Some (findBox (patchTrun result) ''senc'' - findBox result ''moof'' + 16))"
  define saio' where "saio' = updateInArray saio d2 16"
  have lP2: "length P2 = 16 + length mfhd + length tfhd + length trun + 17"
    by (simp add: P2_def lP1 ltr ls)
  have PT2: "patchTrun result = P2 @ saio @ (tfdt @ senc @ mdat2)"
    by (simp add: PT P2_def)
  have ps: "updateInArray (P2 @ saio @ (tfdt @ senc @ mdat2)) d2 (int (length P2) + 16) =
      P2 @ updateInArray saio d2 16 @ (tfdt @ senc @ mdat2) \<and>
      length (updateInArray saio d2 16) = length saio"
    by (intro updateInArray_inside) (simp_all add: d2_def ls)
  have PS: "patchSaio (patchTrun result) (findBox result ''moof'') =
      P0 @ hdr @ (tfhd' @ trun' @ saiz @ saio' @ tfdt @ senc) @ mdat2"
    using ps p3
    by (simp add: patchSaio_def Let_def d2_def [symmetric] PT2 [symmetric] lP2 saio'_def)
      (simp add: P2_def P1_def)
  have out: "fst (convertFragment currentTime buffer chunkTime True) =
      Inr (toUint8Array (P0 @ hdr @ (tfhd' @ trun' @ saiz @ saio' @ tfdt @ senc) @ mdat2))"
    using mfhd asm PS by (simp add: convertFragment_def Let_def)
  \<comment> \<open>the boxes of the new traf\<close>
  have w1: "wfBox ''tfhd'' tfhd'"
    unfolding tfhd'_def using tfhd sz1 by (intro wfBox_js_set getBox_wfBox) simp_all
  have w2: "wfBox ''trun'' trun'"
    unfolding trun'_def using trun sz2
    by (intro wfBox_updateInArray getBox_wfBox) (simp_all add: d_def)
  have w3: "wfBox ''saiz'' saiz" by (simp add: saiz_def wfBox_saiz)
  have w4: "wfBox ''saio'' saio'"
    unfolding saio'_def saio_def
    by (intro wfBox_updateInArray wfBox_saio) (simp_all add: d2_def wfBox_saio)
  have w5: "wfBox ''tfdt'' tfdt" by (simp add: tfdt_def wfBox_tfdt)
  have w6: "wfBox ''senc'' senc" unfolding senc_def using ivb by (rule wfBox_senc)
  define ch where "ch = tfhd' @ trun' @ saiz @ saio' @ tfdt @ senc"
  have lsaio': "length saio' = 20" using ps by (simp add: saio'_def ls)
  have lch: "length ch = length tfhd + length trun + 73 + (length uuid - 32)"
    by (simp add: ch_def ltf ltr ls lsaio' liv)
  have types: "childTypes (toUint8Array ch) =
      Some (map tag [''tfhd'', ''trun'', ''saiz'', ''saio'', ''tfdt'', ''senc''])"
    unfolding ch_def
    using childTypes_wfBox [OF w6, of "[]"]
    by (simp add: childTypes_wfBox [OF w1] childTypes_wfBox [OF w2] childTypes_wfBox [OF w3]
        childTypes_wfBox [OF w4] childTypes_wfBox [OF w5] childTypes_Nil)
  have o1: "drop (8 + length mfhd) (toUint8Array (P0 @ hdr @ ch @ mdat2)) =
      toUint8Array hdr @ toUint8Array ch @ toUint8Array mdat2"
    using lP0 by (simp add: toUint8Array_append)
  have o2: "drop (16 + length mfhd) (toUint8Array (P0 @ hdr @ ch @ mdat2)) =
      toUint8Array ch @ toUint8Array mdat2"
    using lP0 lhdr by (simp add: toUint8Array_append)
  have h: "toUint8Array hdr =
      be32 (int (length tfhd + length trun + 81 + (length uuid - 32))) @ tag ''traf''"
    by (simp add: hdr_def intToByteArray_be32 stringToByteArray_tag toUint8Array_append)
  show ?thesis
    using out types
    by (simp add: ch_def [symmetric] o1 o2 h lch [symmetric])
qed

theorem encrypted_traf_children_witness:
  "getBox (map Some encFragment) ''mfhd'' = Some (mfhdOf encFragment) \<and>
   getBox (map Some encFragment) ''tfhd'' = Some (boxOf encFragment ''tfhd'') \<and>
   getBox (map Some encFragment) ''trun'' = Some (boxOf encFragment ''trun'') \<and>
   getBox (map Some encFragment) ''uuid'' = Some (boxOf encFragment ''uuid'') \<and>
   assembleFragment (map Some encFragment) (mfhdOf encFragment) (timesAt 2) True =
     Inr (resultOf 2 encFragment True) \<and>
   10 \<le> length (boxOf encFragment ''tfhd'') \<and> 20 \<le> length (boxOf encFragment ''trun'') \<and>
   take 8 (drop 24 (projr (fst (convertFragment 2 encFragment None True)))) =
     be32 133 @ tag ''traf'' \<and>
   childTypes (take 125 (drop 32 (projr (fst (convertFragment 2 encFragment None True))))) =
     Some (map tag [''tfhd'', ''trun'', ''saiz'', ''saio'', ''tfdt'', ''senc''])"
proof -
  have sz: "10 \<le> length (boxOf encFragment ''tfhd'')" "20 \<le> length (boxOf encFragment ''trun'')"
    by (simp_all add: enc_boxes_traf)
  have p2: "findBox (resultOf 2 encFragment True) ''trun'' =
      int (16 + length (mfhdOf encFragment) + length (boxOf encFragment ''tfhd''))"
    by (simp add: enc_positions enc_boxes_traf)
  have p3: "findBox (patchTrun (resultOf 2 encFragment True)) ''saio'' =
      int (16 + length (mfhdOf encFragment) + length (boxOf encFragment ''tfhd'') +
           length (boxOf encFragment ''trun'') + 17)"
    by (simp add: enc_positions enc_boxes_traf)
  note th = encrypted_traf_children [OF enc_boxes(1) enc_boxes_traf(1) enc_boxes_traf(2)
      enc_boxes_traf(3) enc_boxes(2) sz enc_boxes_traf(8) p2 p3, of None]
  show ?thesis
    using th sz enc_boxes enc_boxes_traf(1-3) by (auto simp: enc_boxes_traf(4-7))
qed

subsection \<open>The offsets written into trun and saio\<close>

text \<open>
  The boxes of the output are located by their headers (\<open>locate\<close>), not by the scan of
  the rewriter. The lemmas below give the shape of the output of either branch: a
  \<open>moof\<close> box holding \<open>mfhd\<close> and the new \<open>traf\<close>, followed by \<open>mdat\<close>.
\<close>

lemma wfBox_bytes:
  assumes "wfBox t b"
  shows "be32_decode (toUint8Array (b @ rest)) = length b"
    "take 4 (drop 4 (toUint8Array (b @ rest))) = tag t"
    "drop (length b) (toUint8Array (b @ rest)) = toUint8Array rest"
    "length (toUint8Array (b @ rest)) = length b + length rest"
proof -
  from assms have len: "8 \<le> length b" "length b < 4294967296"
    and hd: "take 8 b = map Some (be32 (int (length b)) @ tag t)"
    by (simp_all add: wfBox_def)
  have b: "b = map Some (be32 (int (length b)) @ tag t) @ drop 8 b"
    using hd append_take_drop_id [of 8 b] by simp
  then have u: "toUint8Array (b @ rest) =
      be32 (int (length b)) @ tag t @ toUint8Array (drop 8 b) @ toUint8Array rest"
    by (metis append_assoc toUint8Array_Some toUint8Array_append)
  have lt: "length (tag t) = 4"
    using arg_cong [OF hd, of length] len by (simp add: tag_def)
  show "be32_decode (toUint8Array (b @ rest)) = length b"
    unfolding u using len by (simp add: be32_decode_be32)
  show "length (toUint8Array (b @ rest)) = length b + length rest"
    by (simp add: toUint8Array_def)
  show "drop (length b) (toUint8Array (b @ rest)) = toUint8Array rest"
    by (simp add: toUint8Array_def drop_map)
  show "take 4 (drop 4 (toUint8Array (b @ rest))) = tag t"
    unfolding u using lt by simp
qed

lemma wfBox_length: "wfBox t b \<Longrightarrow> 8 \<le> length b"
  by (simp add: wfBox_def)

lemma childBox_hit:
  assumes "wfBox t b"
  shows "childBox (tag t) (toUint8Array (b @ rest)) = Some (0, length b)"
  using wfBox_bytes [OF assms, of rest] wfBox_length [OF assms]
  by (subst childBox.simps) (simp add: Let_def)

lemma childBox_skip:
  assumes "wfBox t' b" "tag t' \<noteq> tag t"
  shows "childBox (tag t) (toUint8Array (b @ rest)) =
         map_option (\<lambda>(p, n). (length b + p, n)) (childBox (tag t) (toUint8Array rest))"
  using wfBox_bytes [OF assms(1), of rest] wfBox_length [OF assms(1)] assms(2)
  by (subst childBox.simps) (simp add: Let_def)

lemma wfBox_header:
  assumes "8 + length xs < 4294967296" "length t = 4"
  shows "wfBox t (intToByteArray (Some (int (8 + length xs))) @ stringToByteArray t @ xs)"
  using assms
  by (simp add: wfBox_def intToByteArray_be32 stringToByteArray_tag)

lemma tags_distinct:
  "tag ''moof'' \<noteq> tag ''mdat''" "tag ''mfhd'' \<noteq> tag ''traf''"
  "tag ''tfhd'' \<noteq> tag ''trun''" "tag ''tfhd'' \<noteq> tag ''saio''" "tag ''tfhd'' \<noteq> tag ''senc''"
  "tag ''trun'' \<noteq> tag ''saio''" "tag ''trun'' \<noteq> tag ''senc''"
  "tag ''saiz'' \<noteq> tag ''saio''" "tag ''saiz'' \<noteq> tag ''senc''"
  "tag ''saio'' \<noteq> tag ''senc''" "tag ''tfdt'' \<noteq> tag ''senc''"
  by (simp_all add: tag_def)

lemma toUint8Array_drop: "drop n (toUint8Array xs) = toUint8Array (drop n xs)"
  by (simp add: toUint8Array_def drop_map)

lemma toUint8Array_take: "take n (toUint8Array xs) = toUint8Array (take n xs)"
  by (simp add: toUint8Array_def take_map)

lemma locate_in_fragment:
  assumes len: "16 + length mfhd + length C < 4294967296"
    and wm: "wfBox ''mfhd'' mfhd" and wd: "wfBox ''mdat'' D"
    and T: "T = intToByteArray (Some (int (8 + length C))) @ stringToByteArray ''traf'' @ C"
    and M: "M = intToByteArray (Some (int (8 + length (mfhd @ T)))) @
                 stringToByteArray ''moof'' @ mfhd @ T"
  shows "locate [tag ''moof''] (toUint8Array (M @ D)) = Some (0, 16 + length mfhd + length C)"
    and "locate [tag ''mdat''] (toUint8Array (M @ D)) =
           Some (16 + length mfhd + length C, length D)"
    and "locate [tag ''moof'', tag ''traf'', t] (toUint8Array (M @ D)) =
           map_option (\<lambda>(p, n). (16 + length mfhd + p, n)) (childBox t (toUint8Array C))"
proof -
  have lT: "length T = 8 + length C" by (simp add: T)
  have lM: "length M = 16 + length mfhd + length C" by (simp add: M lT)
  have wT: "wfBox ''traf'' T"
    unfolding T using len by (intro wfBox_header) simp_all
  have wM: "wfBox ''moof'' M"
    unfolding M using len lT by (intro wfBox_header) simp_all
  have moof: "childBox (tag ''moof'') (toUint8Array (M @ D)) = Some (0, length M)"
    using wM by (rule childBox_hit)
  then show "locate [tag ''moof''] (toUint8Array (M @ D)) = Some (0, 16 + length mfhd + length C)"
    by (simp add: lM)
  have "childBox (tag ''mdat'') (toUint8Array (D @ [])) = Some (0, length D)"
    using wd by (rule childBox_hit)
  then show "locate [tag ''mdat''] (toUint8Array (M @ D)) =
      Some (16 + length mfhd + length C, length D)"
    by (simp add: childBox_skip [OF wM tags_distinct(1)] lM)
  have p1: "take (length M - 8) (drop 8 (toUint8Array (M @ D))) = toUint8Array (mfhd @ T)"
    by (simp add: toUint8Array_drop toUint8Array_take M lT)
  have traf: "childBox (tag ''traf'') (toUint8Array (mfhd @ T)) = Some (length mfhd, length T)"
    using childBox_hit [OF wT, of "[]"]
    by (simp add: childBox_skip [OF wm tags_distinct(2)])
  have p2: "take (length T - 8) (drop (length mfhd + 8) (toUint8Array (mfhd @ T))) =
      toUint8Array C"
    by (simp add: toUint8Array_drop toUint8Array_take T)
  show "locate [tag ''moof'', tag ''traf'', t] (toUint8Array (M @ D)) =
      map_option (\<lambda>(p, n). (16 + length mfhd + p, n)) (childBox t (toUint8Array C))"
    by (simp add: moof p1 traf p2 option.map_comp comp_def case_prod_unfold add.assoc)
qed

lemma read_inside:
  assumes "length a = p" "k + n \<le> length b"
  shows "take n (drop (p + k) (toUint8Array (a @ b @ c))) = take n (drop k (toUint8Array b))"
  using assms by (simp add: toUint8Array_def)

lemma findBox_moof:
  assumes "assembleFragment buf mfhd ct enc = Inr result" "8 < length result"
  shows "findBox result ''moof'' = 0"
proof -
  from assms(1) obtain n rest where
    r: "result = intToByteArray (Some n) @ stringToByteArray ''moof'' @ rest"
    by (rule assembleFragment_moof)
  have "tagAt result (stringToByteArray ''moof'') 0"
    unfolding r tagAt_chars by (simp add: js_get_append_right js_get_append_left)
      (simp add: stringToByteArray_def js_get_def)
  moreover have "[0..<length result - 8] = 0 # [1..<length result - 8]"
    using assms(2) by (simp add: upt_conv_Cons)
  ultimately show ?thesis by (simp add: findBox_def)
qed

lemma trun_located:
  assumes len: "16 + length mfhd + length C < 4294967296"
    and wm: "wfBox ''mfhd'' mfhd" and wd: "wfBox ''mdat'' D"
    and w1: "wfBox ''tfhd'' tfhd'" and w2: "wfBox ''trun'' trun'" and sz: "20 \<le> length trun'"
    and C: "C = tfhd' @ trun' @ rest"
    and T: "T = intToByteArray (Some (int (8 + length C))) @ stringToByteArray ''traf'' @ C"
    and M: "M = intToByteArray (Some (int (8 + length (mfhd @ T)))) @
                 stringToByteArray ''moof'' @ mfhd @ T"
  shows "locate [tag ''moof''] (toUint8Array (M @ D)) = Some (0, 16 + length mfhd + length C)"
    and "locate [tag ''mdat''] (toUint8Array (M @ D)) =
           Some (16 + length mfhd + length C, length D)"
    and "locate [tag ''moof'', tag ''traf'', tag ''trun''] (toUint8Array (M @ D)) =
           Some (16 + length mfhd + length tfhd', length trun')"
    and "take 4 (drop (16 + length mfhd + length tfhd' + 16) (toUint8Array (M @ D))) =
           take 4 (drop 16 (toUint8Array trun'))"
proof -
  note loc = locate_in_fragment [OF len wm wd T M]
  show "locate [tag ''moof''] (toUint8Array (M @ D)) = Some (0, 16 + length mfhd + length C)"
    by (rule loc)
  show "locate [tag ''mdat''] (toUint8Array (M @ D)) =
      Some (16 + length mfhd + length C, length D)"
    by (rule loc)
  have "childBox (tag ''trun'') (toUint8Array C) = Some (length tfhd', length trun')"
    unfolding C by (simp add: childBox_skip [OF w1 tags_distinct(3)] childBox_hit [OF w2])
  then show "locate [tag ''moof'', tag ''traf'', tag ''trun''] (toUint8Array (M @ D)) =
      Some (16 + length mfhd + length tfhd', length trun')"
    unfolding loc(3) by (simp add: add.assoc)
  define A where "A = intToByteArray (Some (int (8 + length (mfhd @ T)))) @
    stringToByteArray ''moof'' @ mfhd @
    intToByteArray (Some (int (8 + length C))) @ stringToByteArray ''traf'' @ tfhd'"
  have MD: "M @ D = A @ trun' @ (rest @ D)" by (simp add: M T C A_def)
  have lA: "length A = 16 + length mfhd + length tfhd'" by (simp add: A_def)
  show "take 4 (drop (16 + length mfhd + length tfhd' + 16) (toUint8Array (M @ D))) =
      take 4 (drop 16 (toUint8Array trun'))"
    unfolding MD using sz by (intro read_inside lA) simp
qed

lemma saio_located:
  assumes len: "16 + length mfhd + length C < 4294967296"
    and wm: "wfBox ''mfhd'' mfhd" and wd: "wfBox ''mdat'' D"
    and w1: "wfBox ''tfhd'' tfhd'" and w2: "wfBox ''trun'' trun'" and w3: "wfBox ''saiz'' saiz"
    and w4: "wfBox ''saio'' saio'" and w5: "wfBox ''tfdt'' tfdt" and w6: "wfBox ''senc'' senc"
    and sz: "20 \<le> length saio'"
    and C: "C = tfhd' @ trun' @ saiz @ saio' @ tfdt @ senc"
    and T: "T = intToByteArray (Some (int (8 + length C))) @ stringToByteArray ''traf'' @ C"
    and M: "M = intToByteArray (Some (int (8 + length (mfhd @ T)))) @
                 stringToByteArray ''moof'' @ mfhd @ T"
  shows "locate [tag ''moof'', tag ''traf'', tag ''saio''] (toUint8Array (M @ D)) =
           Some (16 + length mfhd + length tfhd' + length trun' + length saiz, length saio')"
    and "locate [tag ''moof'', tag ''traf'', tag ''senc''] (toUint8Array (M @ D)) =
           Some (16 + length mfhd + length tfhd' + length trun' + length saiz + length saio' +
                 length tfdt, length senc)"
    and "take 8 (drop (16 + length mfhd + length tfhd' + length trun' + length saiz + 12)
           (toUint8Array (M @ D))) = take 8 (drop 12 (toUint8Array saio'))"
proof -
  note loc = locate_in_fragment [OF len wm wd T M]
  have "childBox (tag ''saio'') (toUint8Array C) =
      Some (length tfhd' + length trun' + length saiz, length saio')"
    unfolding C
    by (simp add: childBox_skip [OF w1 tags_distinct(4)] childBox_skip [OF w2 tags_distinct(6)]
        childBox_skip [OF w3 tags_distinct(8)] childBox_hit [OF w4])
  then show "locate [tag ''moof'', tag ''traf'', tag ''saio''] (toUint8Array (M @ D)) =
      Some (16 + length mfhd + length tfhd' + length trun' + length saiz, length saio')"
    unfolding loc(3) by (simp add: add.assoc)
  have "childBox (tag ''senc'') (toUint8Array C) =
      Some (length tfhd' + length trun' + length saiz + length saio' + length tfdt, length senc)"
    unfolding C using childBox_hit [OF w6, of "[]"]
    by (simp add: childBox_skip [OF w1 tags_distinct(5)] childBox_skip [OF w2 tags_distinct(7)]
        childBox_skip [OF w3 tags_distinct(9)] childBox_skip [OF w4 tags_distinct(10)]
        childBox_skip [OF w5 tags_distinct(11)])
  then show "locate [tag ''moof'', tag ''traf'', tag ''senc''] (toUint8Array (M @ D)) =
      Some (16 + length mfhd + length tfhd' + length trun' + length saiz + length saio' +
            length tfdt, length senc)"
    unfolding loc(3) by (simp add: add.assoc)
  define A where "A = intToByteArray (Some (int (8 + length (mfhd @ T)))) @
    stringToByteArray ''moof'' @ mfhd @
    intToByteArray (Some (int (8 + length C))) @ stringToByteArray ''traf'' @
    tfhd' @ trun' @ saiz"
  have MD: "M @ D = A @ saio' @ (tfdt @ senc @ D)" by (simp add: M T C A_def)
  have lA: "length A = 16 + length mfhd + length tfhd' + length trun' + length saiz"
    by (simp add: A_def)
  show "take 8 (drop (16 + length mfhd + length tfhd' + length trun' + length saiz + 12)
      (toUint8Array (M @ D))) = take 8 (drop 12 (toUint8Array saio'))"
    unfolding MD using sz by (intro read_inside lA) simp
qed

lemma saio_entry_count:
  "take 4 (drop 12 (toUint8Array createSaioBox)) = be32 1"
  by (simp add: createSaioBox_def updateBoxSize_long intToByteArray_be32 stringToByteArray_tag
      toUint8Array_append)

lemma encrypted_output:
  fixes buffer :: "8 word list"
  defines "buf \<equiv> map Some buffer"
  assumes mfhd: "getBox buf ''mfhd'' = Some mfhd"
    and tfhd: "getBox buf ''tfhd'' = Some tfhd"
    and trun: "getBox buf ''trun'' = Some trun"
    and uuid: "getBox buf ''uuid'' = Some uuid"
    and mdat: "getBox buf ''mdat'' = Some mdat"
    and asm: "assembleFragment buf mfhd (timesAt currentTime) True = Inr result"
    and sz1: "10 \<le> length tfhd" and sz2: "20 \<le> length trun"
    and p1: "findBox (encryptedTraf tfhd trun uuid (timesAt currentTime)) ''tfhd'' = 8"
    and p2: "findBox result ''trun'' = int (16 + length mfhd + length tfhd)"
    and p3: "findBox (patchTrun result) ''saio'' =
               int (16 + length mfhd + length tfhd + length trun + 17)"
  obtains tfhd' trun' saiz saio' tfdt senc C T M D where
    "fst (convertFragment currentTime buffer chunkTime True) = Inr (toUint8Array (M @ D))"
    "M = intToByteArray (Some (int (8 + length (mfhd @ T)))) @
           stringToByteArray ''moof'' @ mfhd @ T"
    "T = intToByteArray (Some (int (8 + length C))) @ stringToByteArray ''traf'' @ C"
    "C = tfhd' @ trun' @ saiz @ saio' @ tfdt @ senc"
    "wfBox ''tfhd'' tfhd'" "wfBox ''trun'' trun'" "wfBox ''saiz'' saiz"
    "wfBox ''saio'' saio'" "wfBox ''tfdt'' tfdt" "wfBox ''senc'' senc" "wfBox ''mdat'' D"
    "length tfhd' = length tfhd" "length trun' = length trun" "length saiz = 17"
    "length saio' = 20" "length tfdt = 20" "length senc = 16 + (length uuid - 32)"
    "length D = 8 + (length mdat - 8)" "length result = length M + length D"
    "trun' = updateInArray trun
       (intToByteArray (Some (findBox result ''mdat'' + 8 - findBox result ''moof''))) 16"
    "saio' = updateInArray createSaioBox
       (intToByteArray (Some (findBox (patchTrun result) ''senc'' - findBox result ''moof'' + 16)))
       16"
proof -
  define ct where "ct = timesAt currentTime"
  define iv where "iv = getArraySegment uuid 32 (Some (int (length uuid)))"
  define saiz where "saiz = createSaizBox (byteArrayToInt trun 12)"
  define saio where "saio = createSaioBox"
  define tfdt where "tfdt = createTfdtBox ct"
  define senc where "senc = sencBlock (byteArrayToInt trun 12) iv"
  define tfhd' where "tfhd' = js_set tfhd 9 (Some 2)"
  define D where "D = updateBoxSize (intToByteArray (Some 0) @ stringToByteArray ''mdat'' @
    getArraySegment mdat 8 (Some (int (length mdat))))"
  have liv: "length iv = length uuid - 32" by (simp add: iv_def length_ivData)
  have "length uuid < 4294967296" using uuid unfolding buf_def by (rule getBox_length)
  then have ivb: "16 + length iv < 4294967296" by (simp add: liv)
  have ls: "length saiz = 17" "length saio = 20" "length tfdt = 20" "length senc = 16 + length iv"
    using wfBox_senc(2) [OF ivb]
    by (simp_all add: saiz_def saio_def tfdt_def senc_def wfBox_saiz wfBox_saio wfBox_tfdt)
  have ltf: "length tfhd' = length tfhd"
    using sz1 by (simp add: tfhd'_def length_js_set_inside)
  define C0 where "C0 = tfhd' @ trun @ saiz @ saio @ tfdt @ senc"
  have lC0: "length C0 = length tfhd + length trun + 73 + (length uuid - 32)"
    by (simp add: C0_def ltf ls liv)
  define hdr where "hdr = intToByteArray (Some (int (8 + length C0))) @ stringToByteArray ''traf''"
  have lhdr: "length hdr = 8" by (simp add: hdr_def)
  \<comment> \<open>the reassembled traf and the flags of tfhd\<close>
  have h: "int (8 + length C0) = int (length tfhd + length trun + 81 + (length uuid - 32))"
    using lC0 by simp
  have E: "encryptedTraf tfhd trun uuid ct = hdr @ tfhd @ (trun @ saiz @ saio @ tfdt @ senc)"
    unfolding hdr_def h
    by (simp add: encryptedTraf_eq saiz_def saio_def tfdt_def senc_def iv_def)
  have "js_set (hdr @ tfhd @ (trun @ saiz @ saio @ tfdt @ senc)) (int (length hdr) + 9) (Some 2) =
      hdr @ js_set tfhd 9 (Some 2) @ (trun @ saiz @ saio @ tfdt @ senc)"
    using sz1 by (intro js_set_inside) simp_all
  then have E': "js_set (encryptedTraf tfhd trun uuid ct)
      (findBox (encryptedTraf tfhd trun uuid ct) ''tfhd'' + 9) (Some 2) = hdr @ C0"
    using p1 [folded ct_def] by (simp add: E lhdr tfhd'_def C0_def)
  \<comment> \<open>the assembled fragment\<close>
  define P0 where "P0 = intToByteArray (Some (int (8 + length (mfhd @ hdr @ C0)))) @
    stringToByteArray ''moof'' @ mfhd"
  from asm tfhd trun uuid mdat have
    "result = updateBoxSize (intToByteArray (Some 0) @ stringToByteArray ''moof'' @ mfhd @
       js_set (encryptedTraf tfhd trun uuid ct)
         (findBox (encryptedTraf tfhd trun uuid ct) ''tfhd'' + 9) (Some 2)) @ D"
    unfolding ct_def D_def
    by (simp add: assembleFragment_def rewriteEncrypted_def Let_def appendToArray_def)
  then have R: "result = P0 @ hdr @ C0 @ D"
    by (simp add: E' updateBoxSize_long P0_def)
  define P1 where "P1 = P0 @ hdr @ tfhd'"
  have lP0: "length P0 = 8 + length mfhd" by (simp add: P0_def)
  have lP1: "length P1 = 16 + length mfhd + length tfhd" by (simp add: P1_def lP0 lhdr ltf)
  have R1: "result = P1 @ trun @ (saiz @ saio @ tfdt @ senc @ D)"
    by (simp add: R C0_def P1_def)
  \<comment> \<open>the data offset of trun\<close>
  define d where "d = intToByteArray (Some (findBox result ''mdat'' + 8 - findBox result ''moof''))"
  define trun' where "trun' = updateInArray trun d 16"
  have pt: "updateInArray (P1 @ trun @ (saiz @ saio @ tfdt @ senc @ D)) d (int (length P1) + 16) =
      P1 @ updateInArray trun d 16 @ (saiz @ saio @ tfdt @ senc @ D) \<and>
      length (updateInArray trun d 16) = length trun"
    using sz2 by (intro updateInArray_inside) (simp_all add: d_def)
  then have ltr: "length trun' = length trun" by (simp add: trun'_def)
  have PT: "patchTrun result = P1 @ trun' @ saiz @ saio @ tfdt @ senc @ D"
    using pt p2 by (simp add: patchTrun_def Let_def d_def [symmetric] R1 [symmetric] lP1 trun'_def)
  \<comment> \<open>the offset of saio\<close>
  define P2 where "P2 = P1 @ trun' @ saiz"
  define d2 where "d2 = intToByteArray
    (Some (findBox (patchTrun result) ''senc'' - findBox result ''moof'' + 16))"
  define saio' where "saio' = updateInArray saio d2 16"
  have lP2: "length P2 = 16 + length mfhd + length tfhd + length trun + 17"
    by (simp add: P2_def lP1 ltr ls)
  have PT2: "patchTrun result = P2 @ saio @ (tfdt @ senc @ D)"
    by (simp add: PT P2_def)
  have ps: "updateInArray (P2 @ saio @ (tfdt @ senc @ D)) d2 (int (length P2) + 16) =
      P2 @ updateInArray saio d2 16 @ (tfdt @ senc @ D) \<and>
      length (updateInArray saio d2 16) = length saio"
    by (intro updateInArray_inside) (simp_all add: d2_def ls)
  define C where "C = tfhd' @ trun' @ saiz @ saio' @ tfdt @ senc"
  have lsaio': "length saio' = 20" using ps by (simp add: saio'_def ls)
  have lC: "length C = length C0" by (simp add: C_def C0_def ltr lsaio' ls)
  have PS: "patchSaio (patchTrun result) (findBox result ''moof'') = P0 @ hdr @ C @ D"
    using ps p3
    by (simp add: patchSaio_def Let_def d2_def [symmetric] PT2 [symmetric] lP2 saio'_def)
      (simp add: P2_def P1_def C_def saio'_def)
  define T where "T = intToByteArray (Some (int (8 + length C))) @ stringToByteArray ''traf'' @ C"
  define M where "M = intToByteArray (Some (int (8 + length (mfhd @ T)))) @
    stringToByteArray ''moof'' @ mfhd @ T"
  have MD: "P0 @ hdr @ C @ D = M @ D"
    by (simp add: M_def T_def P0_def hdr_def lC)
  have out: "fst (convertFragment currentTime buffer chunkTime True) =
      Inr (toUint8Array (M @ D))"
    using mfhd asm PS unfolding buf_def ct_def MD by (simp add: convertFragment_def Let_def)
  \<comment> \<open>the boxes\<close>
  have w1: "wfBox ''tfhd'' tfhd'"
    unfolding tfhd'_def using tfhd sz1 unfolding buf_def
    by (intro wfBox_js_set getBox_wfBox) simp_all
  have w2: "wfBox ''trun'' trun'"
    unfolding trun'_def using trun sz2 unfolding buf_def
    by (intro wfBox_updateInArray getBox_wfBox) (simp_all add: d_def)
  have w3: "wfBox ''saiz'' saiz" by (simp add: saiz_def wfBox_saiz)
  have w4: "wfBox ''saio'' saio'"
    unfolding saio'_def saio_def
    by (intro wfBox_updateInArray wfBox_saio) (simp_all add: d2_def wfBox_saio)
  have w5: "wfBox ''tfdt'' tfdt" by (simp add: tfdt_def wfBox_tfdt)
  have w6: "wfBox ''senc'' senc" unfolding senc_def using ivb by (rule wfBox_senc)
  have lseg: "length (getArraySegment mdat 8 (Some (int (length mdat)))) = length mdat - 8"
    by (simp add: getArraySegment_def)
  have "length mdat < 4294967296" using mdat unfolding buf_def by (rule getBox_length)
  then have mb: "8 + length (getArraySegment mdat 8 (Some (int (length mdat)))) < 4294967296"
    by (simp add: lseg)
  have w7: "wfBox ''mdat'' D" and lD: "length D = 8 + (length mdat - 8)"
    unfolding D_def using wfBox_updateBoxSize [OF mb, of "''mdat''" "Some 0"]
    by (simp_all add: lseg)
  have "length M = 16 + length mfhd + length C" by (simp add: M_def T_def)
  then have lres: "length result = length M + length D"
    unfolding R by (simp add: lP0 lhdr lC)
  show thesis
    using out M_def T_def C_def w1 w2 w3 w4 w5 w6 w7 ltf ltr ls(1) lsaio' ls(3)
      ls(4) [unfolded liv] lD lres trun'_def [unfolded d_def] saio'_def [unfolded d2_def saio_def]
    by (rule that)
qed

lemma plain_output:
  fixes buffer :: "8 word list"
  defines "buf \<equiv> map Some buffer"
  assumes mfhd: "getBox buf ''mfhd'' = Some mfhd"
    and tfhd: "getBox buf ''tfhd'' = Some tfhd"
    and trun: "getBox buf ''trun'' = Some trun"
    and traf: "getBox buf ''traf'' = Some traf"
    and mdat: "getBox buf ''mdat'' = Some mdat"
    and asm: "assembleFragment buf mfhd (timesAt currentTime) False = Inr result"
    and sz1: "8 \<le> length tfhd" and sz2: "20 \<le> length trun"
    and lay: "take (length tfhd + length trun) (drop 8 traf) = tfhd @ trun"
    and p2: "findBox result ''trun'' = int (16 + length mfhd + length tfhd)"
  obtains trun' rest C T M where
    "fst (convertFragment currentTime buffer chunkTime False) = Inr (toUint8Array (M @ mdat))"
    "M = intToByteArray (Some (int (8 + length (mfhd @ T)))) @
           stringToByteArray ''moof'' @ mfhd @ T"
    "T = intToByteArray (Some (int (8 + length C))) @ stringToByteArray ''traf'' @ C"
    "C = tfhd @ trun' @ rest"
    "wfBox ''tfhd'' tfhd" "wfBox ''trun'' trun'"
    "length trun' = length trun" "length result = length M + length mdat"
    "trun' = updateInArray trun
       (intToByteArray (Some (findBox result ''mdat'' + 8 - findBox result ''moof''))) 16"
proof -
  define ct where "ct = timesAt currentTime"
  define tfdt where "tfdt = createTfdtBox ct"
  define rest0 where "rest0 = drop (length tfhd + length trun) (drop 8 traf)"
  have "length (take (length tfhd + length trun) (drop 8 traf)) = length tfhd + length trun"
    unfolding lay by simp
  then have lt: "8 + length tfhd + length trun \<le> length traf"
    using sz2 by (simp add: min_def split: if_splits)
  have "(tfhd @ trun) @ rest0 = drop 8 traf"
    unfolding rest0_def lay [symmetric] by (rule append_take_drop_id)
  then have d8: "drop 8 traf = tfhd @ trun @ rest0" by simp
  have tg: "take 4 (drop 4 traf) = stringToByteArray ''traf''"
    using traf lt unfolding buf_def by (intro getBox_tag) simp_all
  have "drop 4 traf = take 4 (drop 4 traf) @ drop 4 (drop 4 traf)"
    by (simp only: append_take_drop_id)
  also have "drop 4 (drop 4 traf) = drop 8 traf" by simp
  finally have d4: "drop 4 traf = stringToByteArray ''traf'' @ tfhd @ trun @ rest0"
    by (simp only: tg d8)
  define C0 where "C0 = tfhd @ trun @ rest0 @ tfdt"
  have ltfdt: "length tfdt = 20" by (simp add: tfdt_def wfBox_tfdt)
  have "length traf = 8 + length (drop 8 traf)" using lt by simp
  then have ltraf: "length traf + 20 = 8 + length C0"
    unfolding d8 by (simp add: C0_def ltfdt)
  define hdr where "hdr = intToByteArray (Some (int (8 + length C0))) @ stringToByteArray ''traf''"
  have lhdr: "length hdr = 8" by (simp add: hdr_def)
  have "updateBoxSize (traf @ tfdt) =
      intToByteArray (Some (int (length traf + 20))) @ drop 4 traf @ tfdt"
    using lt by (simp add: updateBoxSize_long ltfdt)
  then have U: "updateBoxSize (traf @ tfdt) = hdr @ C0"
    unfolding ltraf d4 by (simp add: hdr_def C0_def)
  define P0 where "P0 = intToByteArray (Some (int (8 + length (mfhd @ hdr @ C0)))) @
    stringToByteArray ''moof'' @ mfhd"
  from asm traf mdat have
    "result = updateBoxSize (intToByteArray (Some 0) @ stringToByteArray ''moof'' @ mfhd @
       updateBoxSize (traf @ tfdt)) @ mdat"
    unfolding ct_def tfdt_def
    by (simp add: assembleFragment_def rewritePlain_def Let_def appendToArray_def)
  then have R: "result = P0 @ hdr @ C0 @ mdat"
    by (simp add: U updateBoxSize_long P0_def)
  define P1 where "P1 = P0 @ hdr @ tfhd"
  have lP0: "length P0 = 8 + length mfhd" by (simp add: P0_def)
  have lP1: "length P1 = 16 + length mfhd + length tfhd" by (simp add: P1_def lP0 lhdr)
  have R1: "result = P1 @ trun @ (rest0 @ tfdt @ mdat)"
    by (simp add: R C0_def P1_def)
  define d where "d = intToByteArray (Some (findBox result ''mdat'' + 8 - findBox result ''moof''))"
  define trun' where "trun' = updateInArray trun d 16"
  have pt: "updateInArray (P1 @ trun @ (rest0 @ tfdt @ mdat)) d (int (length P1) + 16) =
      P1 @ updateInArray trun d 16 @ (rest0 @ tfdt @ mdat) \<and>
      length (updateInArray trun d 16) = length trun"
    using sz2 by (intro updateInArray_inside) (simp_all add: d_def)
  then have ltr: "length trun' = length trun" by (simp add: trun'_def)
  define C where "C = tfhd @ trun' @ (rest0 @ tfdt)"
  have lC: "length C = length C0" by (simp add: C_def C0_def ltr)
  have PT: "patchTrun result = P0 @ hdr @ C @ mdat"
    using pt p2
    by (simp add: patchTrun_def Let_def d_def [symmetric] R1 [symmetric] lP1 trun'_def)
      (simp add: P1_def C_def trun'_def)
  define T where "T = intToByteArray (Some (int (8 + length C))) @ stringToByteArray ''traf'' @ C"
  define M where "M = intToByteArray (Some (int (8 + length (mfhd @ T)))) @
    stringToByteArray ''moof'' @ mfhd @ T"
  have MD: "P0 @ hdr @ C @ mdat = M @ mdat"
    by (simp add: M_def T_def P0_def hdr_def lC)
  have out: "fst (convertFragment currentTime buffer chunkTime False) =
      Inr (toUint8Array (M @ mdat))"
    using mfhd asm PT unfolding buf_def ct_def MD by (simp add: convertFragment_def Let_def)
  have w1: "wfBox ''tfhd'' tfhd"
    using tfhd sz1 unfolding buf_def by (rule getBox_wfBox)
  have w2: "wfBox ''trun'' trun'"
    unfolding trun'_def using trun sz2 unfolding buf_def
    by (intro wfBox_updateInArray getBox_wfBox) (simp_all add: d_def)
  have "length M = 16 + length mfhd + length C" by (simp add: M_def T_def)
  then have lres: "length result = length M + length mdat"
    unfolding R by (simp add: lP0 lhdr lC)
  show thesis
    using out M_def T_def C_def w1 w2 ltr lres trun'_def [unfolded d_def]
    by (rule that)
qed

lemma assembleFragment_mdat:
  assumes "assembleFragment buf mfhd ct True = Inr result"
  obtains mdat where "getBox buf ''mdat'' = Some mdat"
  using assms
  by (auto simp: assembleFragment_def rewriteEncrypted_def Let_def
      split: option.splits sum.splits)

lemma trunId_eval:
  "convertFragment 1 trunIdFragment None False =
     (Inr ([0, 0, 0, 88] @ tag ''moof'' @
             [0, 0, 0, 16] @ tag ''mfhd'' @ [0, 0, 0, 0, 0, 0, 0, 1] @
             [0, 0, 0, 64] @ tag ''traf'' @
               [0, 0, 0, 16] @ tag ''tfhd'' @ [0, 0, 0, 0] @ tag ''trun'' @
               [0, 0, 0, 20] @ tag ''trun'' @ [0, 0, 0, 96, 0, 0, 0, 1, 0, 0, 0, 0] @
               [0, 0, 0, 20] @ tag ''tfdt'' @ [1, 0, 0, 0, 0, 0, 0, 0, 1, 49, 123, 32] @
           [0, 0, 0, 12] @ tag ''mdat'' @ [1, 2, 3, 4]), 2)"
  by code_simp

lemma sencSeq_eval:
  "convertFragment 2 sencSeqFragment None True =
     (Inr ([0, 0, 0, 157] @ tag ''moof'' @
             [0, 0, 0, 16] @ tag ''mfhd'' @ [0, 0, 0, 0] @ tag ''senc'' @
             [0, 0, 0, 133] @ tag ''traf'' @
               [0, 0, 0, 16] @ tag ''tfhd'' @ [0, 2, 0, 0, 0, 0, 0, 1] @
               [0, 0, 0, 20] @ tag ''trun'' @ [0, 0, 0, 1, 0, 0, 0, 1, 0, 0, 0, 165] @
               [0, 0, 0, 17] @ tag ''saiz'' @ [0, 0, 0, 0, 16, 0, 0, 0, 1] @
               [0, 0, 0, 20] @ tag ''saio'' @ [0, 0, 0, 0, 0, 0, 0, 1, 0, 0, 0, 32] @
               [0, 0, 0, 20] @ tag ''tfdt'' @ [1, 0, 0, 0, 0, 0, 0, 0, 2, 98, 246, 64] @
               [0, 0, 0, 32] @ tag ''senc'' @ [0, 0, 0, 2, 0, 0, 0, 1] @
                 [1, 2, 3, 4, 5, 6, 7, 8, 9, 10, 11, 12, 13, 14, 15, 16] @
           [0, 0, 0, 12] @ tag ''mdat'' @ [1, 2, 3, 4]), 3)"
  by code_simp

lemma plain_boxes_traf:
  "getBox (map Some plainFragment) ''tfhd'' = Some (boxOf plainFragment ''tfhd'')"
  "getBox (map Some plainFragment) ''trun'' = Some (boxOf plainFragment ''trun'')"
  "getBox (map Some plainFragment) ''mdat'' = Some (boxOf plainFragment ''mdat'')"
  "length (boxOf plainFragment ''tfhd'') = 16"
  "length (boxOf plainFragment ''trun'') = 20"
  "length (boxOf plainFragment ''mdat'') = 12"
  "take 36 (drop 8 (trafOf plainFragment)) =
     boxOf plainFragment ''tfhd'' @ boxOf plainFragment ''trun''"
  "length (resultOf 1 plainFragment False) = 100"
  "findBox (resultOf 1 plainFragment False) ''mdat'' = 88"
  by code_simp+

lemma enc_boxes_mdat:
  "getBox (map Some encFragment) ''mdat'' = Some (boxOf encFragment ''mdat'')"
  "length (boxOf encFragment ''mdat'') = 12"
  "length (resultOf 2 encFragment True) = 169"
  by code_simp+

text \<open>
  Claim C3, as stated: in the unencrypted \<open>trunIdFragment\<close> the track identifier of
  \<open>tfhd\<close> spells \<open>trun\<close>, and the scan of the rewriter takes these bytes for the
  \<open>trun\<close> box. In the output \<open>moof\<close> starts at 0, \<open>mdat\<close> at 88 and the \<open>trun\<close>
  box at 48; its data-offset field, the four bytes at 48 + 16, still holds the \<open>0\<close> of
  the input and not \<open>88 + 8 - 0\<close>, which was written eight bytes earlier, over the
  flags of \<open>trun\<close>.
\<close>

theorem trun_data_offset_stray_tag_counterexample:
  "locate [tag ''moof''] (projr (fst (convertFragment 1 trunIdFragment None False))) =
     Some (0, 88) \<and>
   locate [tag ''mdat''] (projr (fst (convertFragment 1 trunIdFragment None False))) =
     Some (88, 12) \<and>
   locate [tag ''moof'', tag ''traf'', tag ''trun'']
     (projr (fst (convertFragment 1 trunIdFragment None False))) = Some (48, 20) \<and>
   take 4 (drop (48 + 16) (projr (fst (convertFragment 1 trunIdFragment None False)))) = be32 0 \<and>
   be32 0 \<noteq> be32 (88 + 8 - 0)"
  unfolding trunId_eval by code_simp

text \<open>
  Claim C3, amended: for every rewritten fragment whose \<open>mfhd\<close>, \<open>tfhd\<close> and \<open>mdat\<close>
  boxes are at least 8 and whose \<open>trun\<close> box is at least 20 bytes long (it has a
  data-offset field), whose assembled output is shorter than \<open>2^32\<close> bytes, and in
  which the scans of the rewriter find \<open>trun\<close> and \<open>mdat\<close> at the start of these
  boxes (unencrypted: the \<open>traf\<close> of the input holds \<open>tfhd\<close>, then \<open>trun\<close>, first;
  encrypted: \<open>tfhd\<close> is at least 10 bytes long and the scans find \<open>tfhd\<close> and
  \<open>saio\<close> at the start of these boxes), the output is a \<open>moof\<close> box at 0 followed by
  the \<open>mdat\<close> box, and the four bytes sixteen bytes after the start of the \<open>trun\<close>
  box of its \<open>traf\<close> are the big-endian 32-bit encoding of
  \<open>(start of mdat) + 8 - (start of moof)\<close>.
\<close>

theorem trun_data_offset_points_to_mdat:
  assumes mfhd: "getBox (map Some buffer) ''mfhd'' = Some mfhd"
    and tfhd: "getBox (map Some buffer) ''tfhd'' = Some tfhd"
    and trun: "getBox (map Some buffer) ''trun'' = Some trun"
    and mdat: "getBox (map Some buffer) ''mdat'' = Some mdat"
    and asm: "assembleFragment (map Some buffer) mfhd (timesAt currentTime) isEncrypted =
                Inr result"
    and len: "length result < 4294967296"
    and sz0: "8 \<le> length mfhd" and sz1: "8 \<le> length tfhd" and sz2: "20 \<le> length trun"
    and sz3: "8 \<le> length mdat"
    and p2: "findBox result ''trun'' = int (16 + length mfhd + length tfhd)"
    and pm: "findBox result ''mdat'' = int (length result - length mdat)"
    and plain: "\<not> isEncrypted \<Longrightarrow>
                  getBox (map Some buffer) ''traf'' = Some traf \<and>
                  take (length tfhd + length trun) (drop 8 traf) = tfhd @ trun"
    and enc: "isEncrypted \<Longrightarrow>
                getBox (map Some buffer) ''uuid'' = Some uuid \<and> 10 \<le> length tfhd \<and>
                findBox (encryptedTraf tfhd trun uuid (timesAt currentTime)) ''tfhd'' = 8 \<and>
                findBox (patchTrun result) ''saio'' =
                  int (16 + length mfhd + length tfhd + length trun + 17)"
  shows "\<exists>out. fst (convertFragment currentTime buffer chunkTime isEncrypted) = Inr out \<and>
           locate [tag ''moof''] out = Some (0, length result - length mdat) \<and>
           locate [tag ''mdat''] out = Some (length result - length mdat, length mdat) \<and>
           locate [tag ''moof'', tag ''traf'', tag ''trun''] out =
             Some (16 + length mfhd + length tfhd, length trun) \<and>
           take 4 (drop (16 + length mfhd + length tfhd + 16) out) =
             be32 (int (length result - length mdat) + 8 - 0)"
proof -
  have wm: "wfBox ''mfhd'' mfhd" using mfhd sz0 by (rule getBox_wfBox)
  have "findBox result ''mdat'' \<noteq> - 1" unfolding pm by simp
  then obtain i where "i < length result - 8" by (rule findBox_found)
  then have "8 < length result" by simp
  with asm have moof: "findBox result ''moof'' = 0" by (rule findBox_moof)
  have field: "take 4 (drop 16 (toUint8Array (updateInArray trun
      (intToByteArray (Some (findBox result ''mdat'' + 8 - findBox result ''moof''))) 16))) =
      be32 (int (length result - length mdat) + 8 - 0)"
    unfolding intToByteArray_be32 pm moof using patched_read [of 16 trun] by simp
  show ?thesis
  proof (cases isEncrypted)
    case False
    with plain have traf: "getBox (map Some buffer) ''traf'' = Some traf"
      and lay: "take (length tfhd + length trun) (drop 8 traf) = tfhd @ trun"
      by simp_all
    from asm False have asm': "assembleFragment (map Some buffer) mfhd (timesAt currentTime) False
      = Inr result" by simp
    from mfhd tfhd trun traf mdat asm' sz1 sz2 lay p2 obtain trun' rest C T M where
      out: "fst (convertFragment currentTime buffer chunkTime False) =
              Inr (toUint8Array (M @ mdat))"
      and M: "M = intToByteArray (Some (int (8 + length (mfhd @ T)))) @
           stringToByteArray ''moof'' @ mfhd @ T"
      and T: "T = intToByteArray (Some (int (8 + length C))) @ stringToByteArray ''traf'' @ C"
      and C: "C = tfhd @ trun' @ rest"
      and w1: "wfBox ''tfhd'' tfhd" and w2: "wfBox ''trun'' trun'"
      and ltr: "length trun' = length trun" and lres: "length result = length M + length mdat"
      and tr: "trun' = updateInArray trun
         (intToByteArray (Some (findBox result ''mdat'' + 8 - findBox result ''moof''))) 16"
      by (rule plain_output)
    have wd: "wfBox ''mdat'' mdat" using mdat sz3 by (rule getBox_wfBox)
    have lM: "length M = 16 + length mfhd + length C" by (simp add: M T)
    have len': "16 + length mfhd + length C < 4294967296" using len lres lM by simp
    have sz: "20 \<le> length trun'" using sz2 ltr by simp
    note loc = trun_located [OF len' wm wd w1 w2 sz C T M]
    have m: "length result - length mdat = 16 + length mfhd + length C"
      using lres lM by simp
    show ?thesis
    proof (intro exI conjI)
      show "fst (convertFragment currentTime buffer chunkTime isEncrypted) =
          Inr (toUint8Array (M @ mdat))"
        using out False by simp
      show "locate [tag ''moof''] (toUint8Array (M @ mdat)) =
          Some (0, length result - length mdat)"
        unfolding m by (rule loc(1))
      show "locate [tag ''mdat''] (toUint8Array (M @ mdat)) =
          Some (length result - length mdat, length mdat)"
        unfolding m by (rule loc(2))
      show "locate [tag ''moof'', tag ''traf'', tag ''trun''] (toUint8Array (M @ mdat)) =
          Some (16 + length mfhd + length tfhd, length trun)"
        using loc(3) by (simp only: ltr)
      show "take 4 (drop (16 + length mfhd + length tfhd + 16) (toUint8Array (M @ mdat))) =
          be32 (int (length result - length mdat) + 8 - 0)"
        unfolding loc(4) tr by (rule field)
    qed
  next
    case True
    with enc have uuid: "getBox (map Some buffer) ''uuid'' = Some uuid"
      and sz1': "10 \<le> length tfhd"
      and p1: "findBox (encryptedTraf tfhd trun uuid (timesAt currentTime)) ''tfhd'' = 8"
      and p3: "findBox (patchTrun result) ''saio'' =
                 int (16 + length mfhd + length tfhd + length trun + 17)"
      by simp_all
    from asm True have asm': "assembleFragment (map Some buffer) mfhd (timesAt currentTime) True
      = Inr result" by simp
    from mfhd tfhd trun uuid mdat asm' sz1' sz2 p1 p2 p3
    obtain tfhd' trun' saiz saio' tfdt senc C T M D where
      out: "fst (convertFragment currentTime buffer chunkTime True) = Inr (toUint8Array (M @ D))"
      and M: "M = intToByteArray (Some (int (8 + length (mfhd @ T)))) @
           stringToByteArray ''moof'' @ mfhd @ T"
      and T: "T = intToByteArray (Some (int (8 + length C))) @ stringToByteArray ''traf'' @ C"
      and C: "C = tfhd' @ trun' @ saiz @ saio' @ tfdt @ senc"
      and w: "wfBox ''tfhd'' tfhd'" "wfBox ''trun'' trun'" "wfBox ''saiz'' saiz"
        "wfBox ''saio'' saio'" "wfBox ''tfdt'' tfdt" "wfBox ''senc'' senc" "wfBox ''mdat'' D"
      and l: "length tfhd' = length tfhd" "length trun' = length trun" "length saiz = 17"
        "length saio' = 20" "length tfdt = 20" "length senc = 16 + (length uuid - 32)"
        "length D = 8 + (length mdat - 8)" "length result = length M + length D"
      and tr: "trun' = updateInArray trun
         (intToByteArray (Some (findBox result ''mdat'' + 8 - findBox result ''moof''))) 16"
      and "saio' = updateInArray createSaioBox
         (intToByteArray (Some (findBox (patchTrun result) ''senc'' - findBox result ''moof'' + 16)))
         16"
      by (rule encrypted_output)
    have lD: "length D = length mdat" using l(7) sz3 by simp
    have lM: "length M = 16 + length mfhd + length C" by (simp add: M T)
    have len': "16 + length mfhd + length C < 4294967296" using len l(8) lM by simp
    have sz: "20 \<le> length trun'" using sz2 l(2) by simp
    note loc = trun_located [OF len' wm w(7) w(1) w(2) sz C T M]
    have m: "length result - length mdat = 16 + length mfhd + length C"
      using l(8) lM lD by simp
    show ?thesis
    proof (intro exI conjI)
      show "fst (convertFragment currentTime buffer chunkTime isEncrypted) =
          Inr (toUint8Array (M @ D))"
        using out True by simp
      show "locate [tag ''moof''] (toUint8Array (M @ D)) =
          Some (0, length result - length mdat)"
        unfolding m by (rule loc(1))
      show "locate [tag ''mdat''] (toUint8Array (M @ D)) =
          Some (length result - length mdat, length mdat)"
        unfolding m using loc(2) by (simp only: lD)
      show "locate [tag ''moof'', tag ''traf'', tag ''trun''] (toUint8Array (M @ D)) =
          Some (16 + length mfhd + length tfhd, length trun)"
        using loc(3) by (simp only: l(1) l(2))
      show "take 4 (drop (16 + length mfhd + length tfhd + 16) (toUint8Array (M @ D))) =
          be32 (int (length result - length mdat) + 8 - 0)"
        unfolding loc(4) [unfolded l(1)] tr by (rule field)
    qed
  qed
qed

theorem trun_data_offset_points_to_mdat_witness:
  "getBox (map Some plainFragment) ''mfhd'' = Some (mfhdOf plainFragment) \<and>
   getBox (map Some plainFragment) ''tfhd'' = Some (boxOf plainFragment ''tfhd'') \<and>
   getBox (map Some plainFragment) ''trun'' = Some (boxOf plainFragment ''trun'') \<and>
   getBox (map Some plainFragment) ''mdat'' = Some (boxOf plainFragment ''mdat'') \<and>
   getBox (map Some plainFragment) ''traf'' = Some (trafOf plainFragment) \<and>
   assembleFragment (map Some plainFragment) (mfhdOf plainFragment) (timesAt 1) False =
     Inr (resultOf 1 plainFragment False) \<and>
   take (length (boxOf plainFragment ''tfhd'') + length (boxOf plainFragment ''trun''))
     (drop 8 (trafOf plainFragment)) =
     boxOf plainFragment ''tfhd'' @ boxOf plainFragment ''trun'' \<and>
   findBox (resultOf 1 plainFragment False) ''trun'' = 48 \<and>
   findBox (resultOf 1 plainFragment False) ''mdat'' = 88 \<and>
   locate [tag ''moof''] (projr (fst (convertFragment 1 plainFragment None False))) =
     Some (0, 88) \<and>
   locate [tag ''mdat''] (projr (fst (convertFragment 1 plainFragment None False))) =
     Some (88, 12) \<and>
   locate [tag ''moof'', tag ''traf'', tag ''trun'']
     (projr (fst (convertFragment 1 plainFragment None False))) = Some (48, 20) \<and>
   take 4 (drop (48 + 16) (projr (fst (convertFragment 1 plainFragment None False)))) =
     be32 (88 + 8 - 0) \<and>
   getBox (map Some encFragment) ''uuid'' = Some (boxOf encFragment ''uuid'') \<and>
   assembleFragment (map Some encFragment) (mfhdOf encFragment) (timesAt 2) True =
     Inr (resultOf 2 encFragment True) \<and>
   findBox (resultOf 2 encFragment True) ''trun'' = 48 \<and>
   findBox (resultOf 2 encFragment True) ''mdat'' = 157 \<and>
   findBox (patchTrun (resultOf 2 encFragment True)) ''saio'' = 85 \<and>
   locate [tag ''moof''] (projr (fst (convertFragment 2 encFragment None True))) =
     Some (0, 157) \<and>
   locate [tag ''mdat''] (projr (fst (convertFragment 2 encFragment None True))) =
     Some (157, 12) \<and>
   locate [tag ''moof'', tag ''traf'', tag ''trun'']
     (projr (fst (convertFragment 2 encFragment None True))) = Some (48, 20) \<and>
   take 4 (drop (48 + 16) (projr (fst (convertFragment 2 encFragment None True)))) =
     be32 (157 + 8 - 0)"
proof -
  have lay: "take (length (boxOf plainFragment ''tfhd'') + length (boxOf plainFragment ''trun''))
      (drop 8 (trafOf plainFragment)) =
      boxOf plainFragment ''tfhd'' @ boxOf plainFragment ''trun''"
    by (simp add: plain_boxes_traf)
  have "\<exists>out. fst (convertFragment 1 plainFragment None False) = Inr out \<and>
      locate [tag ''moof''] out = Some (0, 88) \<and>
      locate [tag ''mdat''] out = Some (88, 12) \<and>
      locate [tag ''moof'', tag ''traf'', tag ''trun''] out = Some (48, 20) \<and>
      take 4 (drop (48 + 16) out) = be32 (88 + 8 - 0)"
    using trun_data_offset_points_to_mdat [of plainFragment "mfhdOf plainFragment"
        "boxOf plainFragment ''tfhd''" "boxOf plainFragment ''trun''"
        "boxOf plainFragment ''mdat''" 1 False "resultOf 1 plainFragment False"
        "trafOf plainFragment" "[]" None]
      plain_boxes(1-3) lay
    by (simp add: plain_boxes(4-6) plain_boxes_traf)
  moreover have "\<exists>out. fst (convertFragment 2 encFragment None True) = Inr out \<and>
      locate [tag ''moof''] out = Some (0, 157) \<and>
      locate [tag ''mdat''] out = Some (157, 12) \<and>
      locate [tag ''moof'', tag ''traf'', tag ''trun''] out = Some (48, 20) \<and>
      take 4 (drop (48 + 16) out) = be32 (157 + 8 - 0)"
    using trun_data_offset_points_to_mdat [of encFragment "mfhdOf encFragment"
        "boxOf encFragment ''tfhd''" "boxOf encFragment ''trun''"
        "boxOf encFragment ''mdat''" 2 True "resultOf 2 encFragment True"
        "[]" "boxOf encFragment ''uuid''" None]
      enc_boxes enc_boxes_traf(1-3)
    by (simp add: enc_boxes_traf(4-8) enc_boxes_mdat enc_positions)
  ultimately show ?thesis
    using plain_boxes(1-3) lay enc_boxes enc_boxes_traf(3)
    by (auto simp: plain_boxes(6) plain_boxes_traf enc_positions)
qed

text \<open>
  Claim C4, as stated: in the encrypted \<open>sencSeqFragment\<close> the sequence number of
  \<open>mfhd\<close> spells \<open>senc\<close>, and the scan of the rewriter takes these bytes for the
  \<open>senc\<close> box. In the output \<open>moof\<close> starts at 0, the \<open>saio\<close> box at 85 and the
  \<open>senc\<close> box at 125; the entry count of \<open>saio\<close> is 1 and its one offset is
  \<open>32\<close>, not \<open>125 - 0 + 16\<close>.
\<close>

theorem saio_offset_stray_tag_counterexample:
  "locate [tag ''moof''] (projr (fst (convertFragment 2 sencSeqFragment None True))) =
     Some (0, 157) \<and>
   locate [tag ''moof'', tag ''traf'', tag ''saio'']
     (projr (fst (convertFragment 2 sencSeqFragment None True))) = Some (85, 20) \<and>
   locate [tag ''moof'', tag ''traf'', tag ''senc'']
     (projr (fst (convertFragment 2 sencSeqFragment None True))) = Some (125, 32) \<and>
   take 8 (drop (85 + 12) (projr (fst (convertFragment 2 sencSeqFragment None True)))) =
     be32 1 @ be32 32 \<and>
   be32 32 \<noteq> be32 (125 - 0 + 16)"
  unfolding sencSeq_eval by code_simp

text \<open>
  Claim C4, amended: for every encrypted fragment rewrite in which \<open>mfhd\<close> is at
  least 8, \<open>tfhd\<close> at least 10 and \<open>trun\<close> at least 20 bytes long, the assembled
  output is shorter than \<open>2^32\<close> bytes, and the scans of the rewriter find \<open>tfhd\<close>,
  \<open>trun\<close>, \<open>saio\<close> and \<open>senc\<close> at the start of these boxes, the \<open>traf\<close> of the
  output's \<open>moof\<close> (at 0) holds a \<open>saio\<close> box and a \<open>senc\<close> box, the entry count of
  \<open>saio\<close> is 1, and its one offset, the four bytes after the count, is the
  big-endian 32-bit encoding of \<open>(start of senc) - (start of moof) + 16\<close>.
\<close>

theorem saio_offset_points_to_senc:
  assumes mfhd: "getBox (map Some buffer) ''mfhd'' = Some mfhd"
    and tfhd: "getBox (map Some buffer) ''tfhd'' = Some tfhd"
    and trun: "getBox (map Some buffer) ''trun'' = Some trun"
    and uuid: "getBox (map Some buffer) ''uuid'' = Some uuid"
    and asm: "assembleFragment (map Some buffer) mfhd (timesAt currentTime) True = Inr result"
    and len: "length result < 4294967296"
    and sz0: "8 \<le> length mfhd" and sz1: "10 \<le> length tfhd" and sz2: "20 \<le> length trun"
    and p1: "findBox (encryptedTraf tfhd trun uuid (timesAt currentTime)) ''tfhd'' = 8"
    and p2: "findBox result ''trun'' = int (16 + length mfhd + length tfhd)"
    and p3: "findBox (patchTrun result) ''saio'' =
               int (16 + length mfhd + length tfhd + length trun + 17)"
    and p4: "findBox (patchTrun result) ''senc'' =
               int (16 + length mfhd + length tfhd + length trun + 57)"
  shows "\<exists>out. fst (convertFragment currentTime buffer chunkTime True) = Inr out \<and>
           locate [tag ''moof''] out =
             Some (0, 16 + length mfhd + length tfhd + length trun + 73 + (length uuid - 32)) \<and>
           locate [tag ''moof'', tag ''traf'', tag ''saio''] out =
             Some (16 + length mfhd + length tfhd + length trun + 17, 20) \<and>
           locate [tag ''moof'', tag ''traf'', tag ''senc''] out =
             Some (16 + length mfhd + length tfhd + length trun + 57, 16 + (length uuid - 32)) \<and>
           take 8 (drop (16 + length mfhd + length tfhd + length trun + 17 + 12) out) =
             be32 1 @
             be32 (int (16 + length mfhd + length tfhd + length trun + 57) - 0 + 16)"
proof -
  have wm: "wfBox ''mfhd'' mfhd" using mfhd sz0 by (rule getBox_wfBox)
  from asm obtain mdat where mdat: "getBox (map Some buffer) ''mdat'' = Some mdat"
    by (rule assembleFragment_mdat)
  from mfhd tfhd trun uuid mdat asm sz1 sz2 p1 p2 p3
  obtain tfhd' trun' saiz saio' tfdt senc C T M D where
    out: "fst (convertFragment currentTime buffer chunkTime True) = Inr (toUint8Array (M @ D))"
    and M: "M = intToByteArray (Some (int (8 + length (mfhd @ T)))) @
         stringToByteArray ''moof'' @ mfhd @ T"
    and T: "T = intToByteArray (Some (int (8 + length C))) @ stringToByteArray ''traf'' @ C"
    and C: "C = tfhd' @ trun' @ saiz @ saio' @ tfdt @ senc"
    and w: "wfBox ''tfhd'' tfhd'" "wfBox ''trun'' trun'" "wfBox ''saiz'' saiz"
      "wfBox ''saio'' saio'" "wfBox ''tfdt'' tfdt" "wfBox ''senc'' senc" "wfBox ''mdat'' D"
    and l: "length tfhd' = length tfhd" "length trun' = length trun" "length saiz = 17"
      "length saio' = 20" "length tfdt = 20" "length senc = 16 + (length uuid - 32)"
      "length D = 8 + (length mdat - 8)" "length result = length M + length D"
    and "trun' = updateInArray trun
       (intToByteArray (Some (findBox result ''mdat'' + 8 - findBox result ''moof''))) 16"
    and sa: "saio' = updateInArray createSaioBox
       (intToByteArray (Some (findBox (patchTrun result) ''senc'' - findBox result ''moof'' + 16)))
       16"
    by (rule encrypted_output)
  have lM: "length M = 16 + length mfhd + length C" by (simp add: M T)
  have len': "16 + length mfhd + length C < 4294967296" using len l(8) lM by simp
  have "8 < length result" using l(8) lM by simp
  with asm have moof: "findBox result ''moof'' = 0" by (rule findBox_moof)
  have lC: "length C = length tfhd + length trun + 73 + (length uuid - 32)"
    by (simp add: C l)
  have sz: "20 \<le> length saio'" by (simp add: l)
  note loc2 = saio_located [OF len' wm w(7) w(1) w(2) w(3) w(4) w(5) w(6) sz C T M]
  have e1: "take 4 (drop 12 (toUint8Array saio')) = be32 1"
    unfolding sa saio_entry_count [symmetric]
    using patched_read_other [of 16 12 _ createSaioBox] by (simp add: wfBox_saio)
  have e2: "take 4 (drop 16 (toUint8Array saio')) =
      be32 (int (16 + length mfhd + length tfhd + length trun + 57) - 0 + 16)"
    unfolding sa intToByteArray_be32 p4 moof using patched_read [of 16 createSaioBox] by simp
  have "take 8 (drop 12 (toUint8Array saio')) =
      take 4 (drop 12 (toUint8Array saio')) @ take 4 (drop 16 (toUint8Array saio'))"
    using take_add [of 4 4 "drop 12 (toUint8Array saio')"] by simp
  then have field: "take 8 (drop 12 (toUint8Array saio')) = be32 1 @
      be32 (int (16 + length mfhd + length tfhd + length trun + 57) - 0 + 16)"
    by (simp only: e1 e2)
  have m: "locate [tag ''moof''] (toUint8Array (M @ D)) = Some (0, 16 + length mfhd + length C)"
    using locate_in_fragment(1) [OF len' wm w(7) T M] .
  have s1: "16 + length mfhd + length tfhd + length trun + 17 =
      16 + length mfhd + length tfhd' + length trun' + length saiz"
    by (simp add: l)
  have s2: "16 + length mfhd + length tfhd + length trun + 57 =
      16 + length mfhd + length tfhd' + length trun' + length saiz + length saio' + length tfdt"
    by (simp add: l)
  show ?thesis
  proof (intro exI conjI)
    show "fst (convertFragment currentTime buffer chunkTime True) = Inr (toUint8Array (M @ D))"
      by (rule out)
    show "locate [tag ''moof''] (toUint8Array (M @ D)) =
        Some (0, 16 + length mfhd + length tfhd + length trun + 73 + (length uuid - 32))"
      using m by (simp add: lC add.assoc)
    show "locate [tag ''moof'', tag ''traf'', tag ''saio''] (toUint8Array (M @ D)) =
        Some (16 + length mfhd + length tfhd + length trun + 17, 20)"
      unfolding s1 using loc2(1) by (simp only: l(4))
    show "locate [tag ''moof'', tag ''traf'', tag ''senc''] (toUint8Array (M @ D)) =
        Some (16 + length mfhd + length tfhd + length trun + 57, 16 + (length uuid - 32))"
      unfolding s2 using loc2(2) by (simp only: l(6))
    show "take 8 (drop (16 + length mfhd + length tfhd + length trun + 17 + 12)
        (toUint8Array (M @ D))) =
        be32 1 @ be32 (int (16 + length mfhd + length tfhd + length trun + 57) - 0 + 16)"
      unfolding s1 loc2(3) by (rule field)
  qed
qed

theorem saio_offset_points_to_senc_witness:
  "getBox (map Some encFragment) ''mfhd'' = Some (mfhdOf encFragment) \<and>
   getBox (map Some encFragment) ''tfhd'' = Some (boxOf encFragment ''tfhd'') \<and>
   getBox (map Some encFragment) ''trun'' = Some (boxOf encFragment ''trun'') \<and>
   getBox (map Some encFragment) ''uuid'' = Some (boxOf encFragment ''uuid'') \<and>
   assembleFragment (map Some encFragment) (mfhdOf encFragment) (timesAt 2) True =
     Inr (resultOf 2 encFragment True) \<and>
   findBox (resultOf 2 encFragment True) ''trun'' = 48 \<and>
   findBox (patchTrun (resultOf 2 encFragment True)) ''saio'' = 85 \<and>
   findBox (patchTrun (resultOf 2 encFragment True)) ''senc'' = 125 \<and>
   locate [tag ''moof''] (projr (fst (convertFragment 2 encFragment None True))) =
     Some (0, 157) \<and>
   locate [tag ''moof'', tag ''traf'', tag ''saio'']
     (projr (fst (convertFragment 2 encFragment None True))) = Some (85, 20) \<and>
   locate [tag ''moof'', tag ''traf'', tag ''senc'']
     (projr (fst (convertFragment 2 encFragment None True))) = Some (125, 32) \<and>
   take 8 (drop (85 + 12) (projr (fst (convertFragment 2 encFragment None True)))) =
     be32 1 @ be32 (125 - 0 + 16)"
proof -
  have "\<exists>out. fst (convertFragment 2 encFragment None True) = Inr out \<and>
      locate [tag ''moof''] out = Some (0, 157) \<and>
      locate [tag ''moof'', tag ''traf'', tag ''saio''] out = Some (85, 20) \<and>
      locate [tag ''moof'', tag ''traf'', tag ''senc''] out = Some (125, 32) \<and>
      take 8 (drop (85 + 12) out) = be32 1 @ be32 (125 - 0 + 16)"
    using saio_offset_points_to_senc [of encFragment "mfhdOf encFragment"
        "boxOf encFragment ''tfhd''" "boxOf encFragment ''trun''"
        "boxOf encFragment ''uuid''" 2 "resultOf 2 encFragment True" None]
      enc_boxes enc_boxes_traf(1-3)
    by (simp add: enc_boxes_traf(4-8) enc_boxes_mdat enc_positions)
  then show ?thesis
    using enc_boxes enc_boxes_traf(1-3)
    by (auto simp: enc_positions)
qed

section \<open>Properties of the box-tree fragment rewriter\<close>

text \<open>
  On the sample tree the rewriter renames \<open>sepiff\<close>, drops \<open>tfxd\<close>, inserts \<open>tfdt\<close>
  after \<open>tfhd\<close> and appends \<open>saiz\<close> and \<open>saio\<close>.
\<close>

lemma mss_convertFragment_example:
  "MssFragmentController_convertFragment typesLib [1] toyReference () =
     Inr (Some (tag ''tfhd'' @ tag ''tfdt'' @ tag ''trun'' @ tag ''senc'' @ tag ''saiz'' @ tag ''saio''))"
  by code_simp

text \<open>
  Claim C10: when the deserializer fails on the input, \<open>convertFragment\<close> of
  \<open>MssFragmentController\<close> returns \<open>null\<close>, not the input; it returns the input
  unchanged when the deserializer succeeds and the fragment has no \<open>moof\<close> box, and
  the input can come back only from a successful parse (without \<open>moof\<close>, or as what
  the serializer writes).
\<close>

theorem mss_convertFragment_null_on_parse_failure:
  "(deserialize lib data = None \<longrightarrow>
      MssFragmentController_convertFragment lib data reference info = Inr None) \<and>
   (deserialize lib data = Some fragment \<and> getBoxByType fragment ''moof'' = None \<longrightarrow>
      MssFragmentController_convertFragment lib data reference info = Inr (Some data)) \<and>
   (MssFragmentController_convertFragment lib data reference info = Inr (Some data) \<longrightarrow>
      (\<exists>fragment. deserialize lib data = Some fragment \<and>
         (getBoxByType fragment ''moof'' = None \<or> (\<exists>f. data = serialize lib f))))"
  by (auto simp: MssFragmentController_convertFragment_def Let_def
      split: option.splits sum.splits prod.splits)

theorem mss_convertFragment_null_on_parse_failure_witness:
  "deserialize toyLib [] = None \<and>
   MssFragmentController_convertFragment toyLib [] toyReference () = Inr None \<and>
   deserialize toyLib [1] = Some (Box ''file'' [] [Box ''mdat'' [] []]) \<and>
   getBoxByType (Box ''file'' [] [Box ''mdat'' [] []]) ''moof'' = None \<and>
   MssFragmentController_convertFragment toyLib [1] toyReference () = Inr (Some [1])"
  using mss_convertFragment_null_on_parse_failure
      [of toyLib "[]" toyReference "()" "Box ''file'' [] [Box ''mdat'' [] []]"]
    mss_convertFragment_null_on_parse_failure
      [of toyLib "[1]" toyReference "()" "Box ''file'' [] [Box ''mdat'' [] []]"]
  by (simp add: toyLib_def getBoxByType_def)

end
